theory Spec2Isabelle
  imports Main
begin

section \<open>Data model\<close>

text \<open>
  The chat server keeps one ordered log of messages per room. A \<open>ChatMessage\<close> is the
  object with the four string properties the server reads and writes: \<open>id\<close>, \<open>content\<close>,
  \<open>user\<close> and \<open>role\<close>. The field \<open>id\<close> is written \<open>id'\<close> here, since \<open>id\<close> is the
  identity function of HOL. Strings are compared with \<open>===\<close> in the source, which is
  equality of values.
\<close>

record ChatMessage =
  id' :: string
  content :: string
  user :: string
  role :: string

text \<open>
  \<open>Message\<close> is the tagged union that travels over the socket: the tag is the \<open>type\<close>
  property (\<open>"add"\<close>, \<open>"update"\<close>, \<open>"all"\<close>). The \<open>type\<close> property that a parsed event
  carries along when it is stored in the log is not a property of \<open>ChatMessage\<close> and is
  not modelled.
\<close>

datatype Message =
    Add ChatMessage
  | Update ChatMessage
  | AllMessages "ChatMessage list"

text \<open>
  A payload received from a socket is described by what \<open>JSON.parse\<close> makes of it:
  text that is not JSON (or a binary frame), on which \<open>JSON.parse\<close> throws; the JSON
  text \<open>null\<close>; the JSON text of a value of type \<open>Message\<close>; and the JSON text of any
  other value, whose \<open>type\<close> property is neither \<open>"add"\<close> nor \<open>"update"\<close>.
  An object tagged \<open>"add"\<close> or \<open>"update"\<close> is taken to carry the four string
  properties, as the cast \<open>as Message\<close> says. \<open>JSON.stringify\<close> of a \<open>Message\<close> is the
  payload \<open>Json (Msg m)\<close>.
\<close>

datatype json_value =
    Null
  | Msg Message
  | Other_value string

datatype WSMessage =
    Not_Json string
  | Json json_value

datatype js_error = SyntaxError | TypeError | Rejected

type_synonym Connection = string

text \<open>
  The state of one room: the in-memory log \<open>messages\<close> and the rows of the SQL table
  \<open>messages (id TEXT PRIMARY KEY, user TEXT, role TEXT, content TEXT)\<close>, in the order
  in which \<open>SELECT *\<close> returns them.
\<close>

record Chat =
  messages :: "ChatMessage list"
  messages_table :: "ChatMessage list"

section \<open>The message store\<close>

text \<open>
  The statement \<open>INSERT INTO messages (id, user, role, content) VALUES (?, ?, ?, ?)
  ON CONFLICT (id) DO UPDATE SET content = ?\<close>, run with the four properties of the
  message and its content once more: a new row at the end when no row has the id, and
  otherwise the content column of the row with that id is overwritten.
\<close>

definition sql_upsert :: "ChatMessage list \<Rightarrow> ChatMessage \<Rightarrow> ChatMessage list" where
  "sql_upsert rows message =
     (case find (\<lambda>r. id' r = id' message) rows of
        None \<Rightarrow> rows @ [message]
      | Some existing \<Rightarrow>
          map (\<lambda>r. if id' r = id' message then r\<lparr>content := content message\<rparr> else r) rows)"

definition saveMessage :: "Chat \<Rightarrow> ChatMessage \<Rightarrow> Chat" where
  "saveMessage st message =
     (let existingMessage = find (\<lambda>m. id' m = id' message) (messages st);
          log = (case existingMessage of
                   Some existing \<Rightarrow>
                     map (\<lambda>m. if id' m = id' message then message else m) (messages st)
                 | None \<Rightarrow> messages st @ [message])
      in \<lparr>messages = log, messages_table = sql_upsert (messages_table st) message\<rparr>)"

text \<open>
  \<open>onStart\<close> creates the table when it is missing and loads the log from its rows.
\<close>

definition onStart :: "Chat \<Rightarrow> Chat" where
  "onStart st = st\<lparr>messages := messages_table st\<rparr>"

section \<open>Effects and handlers\<close>

text \<open>
  What a handler does to the outside is recorded as a list of effects, in the order of
  the calls: \<open>this.broadcast(payload, exclude)\<close>, \<open>connection.send(payload)\<close>, the call
  of the completion backend \<open>this.env.Ai.run\<close> with its list of \<open>{content, role}\<close>
  pairs, and each call of \<open>saveMessage\<close> (the write to the store). A handler returns
  its effects, the state it leaves, and the error it threw, if any: what was done before
  a throw stays done. A handler is followed from its call to its end; the handlers of
  one room run one after the other.
\<close>

datatype effect =
    Broadcast WSMessage "string list"
  | Send Connection WSMessage
  | Ai_run "(string \<times> string) list"
  | Save ChatMessage

record 'state result =
  trace :: "effect list"
  chat :: 'state
  thrown :: "js_error option"

text \<open>
  One event of the backend's stream, by its \<open>data\<close>: the marker \<open>[DONE]\<close>, the JSON text
  of an object whose \<open>response\<close> is a string, or text on which \<open>JSON.parse\<close> throws.
\<close>

datatype sse_event =
    Data_Response string
  | Data_Done
  | Data_Invalid

type_synonym Ai = "(string \<times> string) list \<Rightarrow> js_error + sse_event list"

definition broadcastMessage :: "Message \<Rightarrow> string list \<Rightarrow> effect" where
  "broadcastMessage message exclude = Broadcast (Json (Msg message)) exclude"

definition onConnect :: "Chat \<Rightarrow> Connection \<Rightarrow> Chat result" where
  "onConnect st connection =
     \<lparr>trace = [Send connection (Json (Msg (AllMessages (messages st))))],
      chat = st, thrown = None\<rparr>"

fun JSON_parse :: "WSMessage \<Rightarrow> js_error + json_value" where
  "JSON_parse (Not_Json s) = Inl SyntaxError"
| "JSON_parse (Json v) = Inr v"

definition aiMessage :: "string \<Rightarrow> ChatMessage" where
  "aiMessage nanoid = \<lparr>id' = nanoid, content = ''...'', user = ''AI'', role = ''assistant''\<rparr>"

text \<open>
  The loop \<open>for await (const event of eventStream)\<close>, with the local \<open>buffer\<close>. It does
  not leave the loop at the marker: events after \<open>[DONE]\<close> are handled like the others.
\<close>

fun for_await :: "ChatMessage \<Rightarrow> string \<Rightarrow> Chat \<Rightarrow> sse_event list \<Rightarrow> Chat result" where
  "for_await ai buffer st [] = \<lparr>trace = [], chat = st, thrown = None\<rparr>"
| "for_await ai buffer st (Data_Response response # events) =
     (let buffer' = buffer @ response;
          r = for_await ai buffer' st events
      in r\<lparr>trace := broadcastMessage (Update (ai\<lparr>content := buffer' @ ''...''\<rparr>)) [] # trace r\<rparr>)"
| "for_await ai buffer st (Data_Done # events) =
     (let final = ai\<lparr>content := buffer\<rparr>;
          r = for_await ai buffer (saveMessage st final) events
      in r\<lparr>trace := Save final # broadcastMessage (Update final) [] # trace r\<rparr>)"
| "for_await ai buffer st (Data_Invalid # events) =
     \<lparr>trace = [], chat = st, thrown = Some SyntaxError\<rparr>"

text \<open>
  \<open>onMessage\<close>. The backend \<open>Ai\<close> and the identifier that \<open>nanoid(8)\<close> returns are
  parameters. The raw payload is broadcast first, to every connection (no exclusion list
  is passed); then it is parsed, and \<open>parsed.type\<close> is read, which throws on \<open>null\<close>.
\<close>

definition onMessage :: "Ai \<Rightarrow> string \<Rightarrow> Chat \<Rightarrow> Connection \<Rightarrow> WSMessage \<Rightarrow> Chat result" where
  "onMessage Ai_run_stream nanoid st connection message =
     (let relay = Broadcast message [] in
      case JSON_parse message of
        Inl e \<Rightarrow> \<lparr>trace = [relay], chat = st, thrown = Some e\<rparr>
      | Inr Null \<Rightarrow> \<lparr>trace = [relay], chat = st, thrown = Some TypeError\<rparr>
      | Inr (Other_value v) \<Rightarrow> \<lparr>trace = [relay], chat = st, thrown = None\<rparr>
      | Inr (Msg (AllMessages ms)) \<Rightarrow> \<lparr>trace = [relay], chat = st, thrown = None\<rparr>
      | Inr (Msg (Update parsed)) \<Rightarrow>
          \<lparr>trace = [relay, Save parsed], chat = saveMessage st parsed, thrown = None\<rparr>
      | Inr (Msg (Add parsed)) \<Rightarrow>
          (let st1 = saveMessage st parsed;
               ai = aiMessage nanoid;
               prompt = map (\<lambda>m. (content m, role m)) (messages st1);
               before = [relay, Save parsed, broadcastMessage (Add ai) [], Ai_run prompt]
           in case Ai_run_stream prompt of
                Inl e \<Rightarrow> \<lparr>trace = before, chat = st1, thrown = Some e\<rparr>
              | Inr eventStream \<Rightarrow>
                  (let r = for_await ai [] (saveMessage st1 ai) eventStream
                   in r\<lparr>trace := before @ Save ai # trace r\<rparr>)))"

text \<open>
  A room handles its \<open>add\<close> events one after the other. Each run of \<open>onMessage\<close> has its
  own backend answer, generated identifier and sending connection; the next run starts
  from the state the previous one left, whether it returned or threw.
\<close>

record add_event =
  backend :: Ai
  generated :: string
  sender :: Connection
  event :: ChatMessage

fun process_adds :: "Chat \<Rightarrow> add_event list \<Rightarrow> Chat" where
  "process_adds st [] = st"
| "process_adds st (e # es) =
     process_adds
       (chat (onMessage (backend e) (generated e) st (sender e) (Json (Msg (Add (event e)))))) es"

section \<open>The room and its connections\<close>

text \<open>
  A run of \<open>onMessage\<close> is suspended where the source awaits: at
  \<open>await this.env.Ai.run(...)\<close> and before each event of \<open>for await\<close>. Between two
  awaits it runs alone; at an await other handlers of the room may run. A suspended run
  waits for the backend's answer, or it is in the loop with its buffer and the events
  still to come.
\<close>

datatype suspended_run =
    Awaiting_Ai ChatMessage "js_error + sse_event list"
  | Streaming ChatMessage string "sse_event list"

text \<open>
  \<open>start\<close> is \<open>onMessage\<close> from its call to its first await, or to its end when it
  does not await; \<open>resume\<close> is the piece of the run from one await to the next. A run
  whose backend call is rejected, or that meets an event it cannot parse, throws and ends;
  a run whose stream has ended returns.
\<close>

definition start ::
  "Ai \<Rightarrow> string \<Rightarrow> Chat \<Rightarrow> Connection \<Rightarrow> WSMessage \<Rightarrow> effect list \<times> Chat \<times> suspended_run option"
where
  "start Ai_run_stream nanoid st connection message =
     (case message of
        Json (Msg (Add parsed)) \<Rightarrow>
          (let st1 = saveMessage st parsed;
               ai = aiMessage nanoid;
               prompt = map (\<lambda>m. (content m, role m)) (messages st1)
           in ([Broadcast message [], Save parsed, broadcastMessage (Add ai) [], Ai_run prompt],
               st1, Some (Awaiting_Ai ai (Ai_run_stream prompt))))
      | _ \<Rightarrow>
          (let r = onMessage Ai_run_stream nanoid st connection message
           in (trace r, chat r, None)))"

fun resume :: "Chat \<Rightarrow> suspended_run \<Rightarrow> effect list \<times> Chat \<times> suspended_run option" where
  "resume st (Awaiting_Ai ai (Inl e)) = ([], st, None)"
| "resume st (Awaiting_Ai ai (Inr eventStream)) =
     ([Save ai], saveMessage st ai, Some (Streaming ai [] eventStream))"
| "resume st (Streaming ai buffer []) = ([], st, None)"
| "resume st (Streaming ai buffer (Data_Response response # events)) =
     ([broadcastMessage (Update (ai\<lparr>content := buffer @ response @ ''...''\<rparr>)) []], st,
      Some (Streaming ai (buffer @ response) events))"
| "resume st (Streaming ai buffer (Data_Done # events)) =
     ([Save (ai\<lparr>content := buffer\<rparr>), broadcastMessage (Update (ai\<lparr>content := buffer\<rparr>)) []],
      saveMessage st (ai\<lparr>content := buffer\<rparr>), Some (Streaming ai buffer events))"
| "resume st (Streaming ai buffer (Data_Invalid # events)) = ([], st, None)"

text \<open>
  Modelled from the spec: the runtime that accepts connections, delivers broadcasts and
  calls the handlers (the \<open>partyserver\<close> library) is not among the sources. The
  specification says of it that a broadcast reaches every connected participant except
  those whose ids are listed (section 4.2), and that on the acceptance of a new
  connection \<open>onConnect\<close> is run for it (section 4.3). A room is its store, the
  connections accepted so far and its suspended runs. A delivery is a pair of a
  connection and the payload it receives. The events of a room are the acceptance of a
  connection, the arrival of a payload, and the resumption of a suspended run; a
  schedule is a list of them, in any order.
\<close>

record Room =
  store :: Chat
  connections :: "Connection list"
  suspended_runs :: "suspended_run list"

datatype room_event =
    Accept Connection
  | Inbound Ai string Connection WSMessage
  | Resume nat

fun deliver :: "Connection list \<Rightarrow> effect \<Rightarrow> (Connection \<times> WSMessage) list" where
  "deliver conns (Send connection payload) = [(connection, payload)]"
| "deliver conns (Broadcast payload exclude) =
     map (\<lambda>c. (c, payload)) (filter (\<lambda>c. c \<notin> set exclude) conns)"
| "deliver conns (Ai_run prompt) = []"
| "deliver conns (Save message) = []"

fun room_step :: "Room \<Rightarrow> room_event \<Rightarrow> (Connection \<times> WSMessage) list \<times> Room" where
  "room_step room (Accept connection) =
     (let conns = connections room @ [connection];
          r = onConnect (store room) connection
      in (concat (map (deliver conns) (trace r)),
          \<lparr>store = chat r, connections = conns, suspended_runs = suspended_runs room\<rparr>))"
| "room_step room (Inbound Ai_run_stream nanoid connection message) =
     (case start Ai_run_stream nanoid (store room) connection message of
        (effects, st, suspended) \<Rightarrow>
          (concat (map (deliver (connections room)) effects),
           \<lparr>store = st, connections = connections room,
            suspended_runs = (case suspended of
                                None \<Rightarrow> suspended_runs room
                              | Some t \<Rightarrow> suspended_runs room @ [t])\<rparr>))"
| "room_step room (Resume k) =
     (if k < length (suspended_runs room)
      then (case resume (store room) (suspended_runs room ! k) of
              (effects, st, suspended) \<Rightarrow>
                (concat (map (deliver (connections room)) effects),
                 \<lparr>store = st, connections = connections room,
                  suspended_runs = (case suspended of
                                      None \<Rightarrow> take k (suspended_runs room)
                                               @ drop (Suc k) (suspended_runs room)
                                    | Some t \<Rightarrow> (suspended_runs room)[k := t])\<rparr>))
      else ([], room))"

fun run_room :: "Room \<Rightarrow> room_event list \<Rightarrow> (Connection \<times> WSMessage) list \<times> Room" where
  "run_room room [] = ([], room)"
| "run_room room (e # es) =
     (let (d, room') = room_step room e;
          (ds, room'') = run_room room' es
      in (d @ ds, room''))"

text \<open>
  What one connection receives, in order.
\<close>

definition received :: "Connection \<Rightarrow> (Connection \<times> WSMessage) list \<Rightarrow> WSMessage list" where
  "received c ds = map snd (filter (\<lambda>d. fst d = c) ds)"

section \<open>The revision without durable storage\<close>

text \<open>
  The repository also holds the revision of the server that keeps the log in memory
  only (\<open>src/server/index.ts\<close>): no \<open>saveMessage\<close>, no table. Its state is the list
  \<open>this.messages\<close>; it writes to the list with \<open>push\<close>, with an assignment at the index
  that \<open>findIndex\<close> returns, and with \<open>map\<close> at the end of a stream. Its handlers are
  written here with the suffix \<open>inmem\<close>, and their traces hold no \<open>Save\<close>.
\<close>

fun findIndex :: "('a \<Rightarrow> bool) \<Rightarrow> 'a list \<Rightarrow> int" where
  "findIndex P [] = - 1"
| "findIndex P (x # xs) =
     (if P x then 0 else (let i = findIndex P xs in if i = - 1 then - 1 else i + 1))"

text \<open>
  \<open>this.messages[index] = parsed\<close>: at the index \<open>-1\<close> the assignment sets a property of
  the array object that nothing reads, and the elements are unchanged; an index that
  \<open>findIndex\<close> returns is otherwise below the length.
\<close>

definition assign_index :: "'a list \<Rightarrow> int \<Rightarrow> 'a \<Rightarrow> 'a list" where
  "assign_index xs index v = (if index < 0 then xs else xs[nat index := v])"

definition onConnect_inmem :: "ChatMessage list \<Rightarrow> Connection \<Rightarrow> ChatMessage list result" where
  "onConnect_inmem log connection =
     \<lparr>trace = [Send connection (Json (Msg (AllMessages log)))], chat = log, thrown = None\<rparr>"

fun for_await_inmem ::
  "ChatMessage \<Rightarrow> string \<Rightarrow> ChatMessage list \<Rightarrow> sse_event list \<Rightarrow> ChatMessage list result"
where
  "for_await_inmem ai buffer log [] = \<lparr>trace = [], chat = log, thrown = None\<rparr>"
| "for_await_inmem ai buffer log (Data_Response response # events) =
     (let buffer' = buffer @ response;
          r = for_await_inmem ai buffer' log events
      in r\<lparr>trace := broadcastMessage (Update (ai\<lparr>content := buffer' @ ''...''\<rparr>)) [] # trace r\<rparr>)"
| "for_await_inmem ai buffer log (Data_Done # events) =
     (let log' = map (\<lambda>m. if id' m = id' ai then m\<lparr>content := buffer\<rparr> else m) log;
          r = for_await_inmem ai buffer log' events
      in r\<lparr>trace := broadcastMessage (Update (ai\<lparr>content := buffer\<rparr>)) [] # trace r\<rparr>)"
| "for_await_inmem ai buffer log (Data_Invalid # events) =
     \<lparr>trace = [], chat = log, thrown = Some SyntaxError\<rparr>"

definition onMessage_inmem ::
  "Ai \<Rightarrow> string \<Rightarrow> ChatMessage list \<Rightarrow> Connection \<Rightarrow> WSMessage \<Rightarrow> ChatMessage list result"
where
  "onMessage_inmem Ai_run_stream nanoid log connection message =
     (let relay = Broadcast message [] in
      case JSON_parse message of
        Inl e \<Rightarrow> \<lparr>trace = [relay], chat = log, thrown = Some e\<rparr>
      | Inr Null \<Rightarrow> \<lparr>trace = [relay], chat = log, thrown = Some TypeError\<rparr>
      | Inr (Other_value v) \<Rightarrow> \<lparr>trace = [relay], chat = log, thrown = None\<rparr>
      | Inr (Msg (AllMessages ms)) \<Rightarrow> \<lparr>trace = [relay], chat = log, thrown = None\<rparr>
      | Inr (Msg (Update parsed)) \<Rightarrow>
          (let index = findIndex (\<lambda>m. id' m = id' parsed) log
           in \<lparr>trace = [relay], chat = assign_index log index parsed, thrown = None\<rparr>)
      | Inr (Msg (Add parsed)) \<Rightarrow>
          (let log1 = log @ [parsed];
               ai = aiMessage nanoid;
               prompt = map (\<lambda>m. (content m, role m)) log1;
               before = [relay, broadcastMessage (Add ai) [], Ai_run prompt]
           in case Ai_run_stream prompt of
                Inl e \<Rightarrow> \<lparr>trace = before, chat = log1, thrown = Some e\<rparr>
              | Inr eventStream \<Rightarrow>
                  (let r = for_await_inmem ai [] (log1 @ [ai]) eventStream
                   in r\<lparr>trace := before @ trace r\<rparr>)))"

section \<open>Reading a trace and the store\<close>

text \<open>
  The contents of the \<open>update\<close> events broadcast for one message id, in the order of
  the broadcasts.
\<close>

fun update_contents :: "string \<Rightarrow> effect list \<Rightarrow> string list" where
  "update_contents i [] = []"
| "update_contents i (Broadcast (Json (Msg (Update m))) exclude # es) =
     (if id' m = i then content m # update_contents i es else update_contents i es)"
| "update_contents i (e # es) = update_contents i es"

text \<open>
  The prompts with which the backend was called.
\<close>

fun prompts :: "effect list \<Rightarrow> (string \<times> string) list list" where
  "prompts [] = []"
| "prompts (Ai_run prompt # es) = prompt # prompts es"
| "prompts (e # es) = prompts es"

text \<open>
  The text that a sequence of stream events appends to the buffer: its fragments, in
  order. The marker appends nothing.
\<close>

fun fragments :: "sse_event list \<Rightarrow> string" where
  "fragments [] = []"
| "fragments (Data_Response response # events) = response @ fragments events"
| "fragments (e # events) = fragments events"

text \<open>
  The specification's words "with the typing-indicator suffix stripped": a content that
  ends in the three dots loses them.
\<close>

definition strip_indicator :: "string \<Rightarrow> string" where
  "strip_indicator s =
     (if 3 \<le> length s \<and> drop (length s - 3) s = ''...'' then take (length s - 3) s else s)"

text \<open>
  The content that the log, and the table, hold for an id.
\<close>

definition stored_content :: "string \<Rightarrow> Chat \<Rightarrow> string option" where
  "stored_content i st = map_option content (find (\<lambda>m. id' m = i) (messages st))"

definition durable_content :: "string \<Rightarrow> Chat \<Rightarrow> string option" where
  "durable_content i st = map_option content (find (\<lambda>m. id' m = i) (messages_table st))"

text \<open>
  The contents of the partial updates that a sequence of fragments gives, starting from
  a buffer: after each fragment, the buffer so far followed by the three dots.
\<close>

fun partial_contents :: "string \<Rightarrow> string list \<Rightarrow> string list" where
  "partial_contents buffer [] = []"
| "partial_contents buffer (response # responses) =
     (buffer @ response @ ''...'') # partial_contents (buffer @ response) responses"

section \<open>Example inputs\<close>

text \<open>
  The scenario of the specification: participant alice sends the message \<open>m1\<close> with
  content \<open>hi\<close> into an empty room; the generated identifier is \<open>ai1\<close>, and the backend
  answers with two fragments and the end marker.
\<close>

definition empty_chat :: Chat where
  "empty_chat = \<lparr>messages = [], messages_table = []\<rparr>"

definition msg_hi :: ChatMessage where
  "msg_hi = \<lparr>id' = ''m1'', content = ''hi'', user = ''alice'', role = ''user''\<rparr>"

definition msg_yo :: ChatMessage where
  "msg_yo = \<lparr>id' = ''m2'', content = ''yo'', user = ''bob'', role = ''user''\<rparr>"

definition msg_edit :: ChatMessage where
  "msg_edit = \<lparr>id' = ''m1'', content = ''hello'', user = ''carol'', role = ''assistant''\<rparr>"

definition Ai_example :: Ai where
  "Ai_example prompt = Inr [Data_Response ''Hi'', Data_Response ''!'', Data_Done]"

text \<open>
  A backend whose call is rejected.
\<close>

definition Ai_down :: Ai where
  "Ai_down prompt = Inl Rejected"

text \<open>
  Two \<open>add\<close> events: the backend answers the first and rejects the second.
\<close>

definition two_adds :: "add_event list" where
  "two_adds =
     [\<lparr>backend = Ai_example, generated = ''ai1'', sender = ''c1'', event = msg_hi\<rparr>,
      \<lparr>backend = Ai_down, generated = ''ai2'', sender = ''c2'', event = msg_yo\<rparr>]"

text \<open>
  A room with one participant and an empty log.
\<close>

definition room_one :: Room where
  "room_one = \<lparr>store = empty_chat, connections = [''c1''], suspended_runs = []\<rparr>"

section \<open>Properties of the store\<close>

lemma find_id_None: "find (\<lambda>m. id' m = i) xs = None \<longleftrightarrow> i \<notin> set (map id' xs)"
  by (induction xs) auto

lemma find_append_self:
  "find (\<lambda>m. id' m = id' x) xs = None \<Longrightarrow> find (\<lambda>m. id' m = id' x) (xs @ [x]) = Some x"
  by (induction xs) (auto split: if_splits)

lemma find_map_replace:
  "find (\<lambda>m. id' m = id' x) xs \<noteq> None \<Longrightarrow>
   find (\<lambda>m. id' m = id' x) (map (\<lambda>m. if id' m = id' x then x else m) xs) \<noteq> None"
  by (induction xs) auto

lemma map_replace_idem:
  "map (\<lambda>m. if id' m = id' x then x else m) (map (\<lambda>m. if id' m = id' x then x else m) xs)
   = map (\<lambda>m. if id' m = id' x then x else m) xs"
  by (induction xs) auto

lemma map_replace_absent:
  "find (\<lambda>m. id' m = id' x) xs = None \<Longrightarrow>
   map (\<lambda>m. if id' m = id' x then x else m) xs = xs"
  by (induction xs) (auto split: if_splits)

lemma sql_upsert_idem: "sql_upsert (sql_upsert rows x) x = sql_upsert rows x"
proof (cases "find (\<lambda>r. id' r = id' x) rows")
  case None
  then have absent: "map (\<lambda>r. if id' r = id' x then r\<lparr>content := content x\<rparr> else r) rows = rows"
    by (induction rows) (auto split: if_splits)
  have "find (\<lambda>r. id' r = id' x) (rows @ [x]) = Some x"
    using None by (rule find_append_self)
  with None absent show ?thesis
    by (simp add: sql_upsert_def)
next
  case (Some r)
  let ?f = "\<lambda>r. if id' r = id' x then r\<lparr>content := content x\<rparr> else r"
  have "find (\<lambda>r. id' r = id' x) (map ?f rows) \<noteq> None"
    using Some by (induction rows) (auto split: if_splits)
  then obtain r' where r': "find (\<lambda>r. id' r = id' x) (map ?f rows) = Some r'"
    by blast
  have "map ?f (map ?f rows) = map ?f rows"
    by (induction rows) auto
  with Some r' show ?thesis
    by (simp add: sql_upsert_def)
qed

text \<open>
  The upsert of the durable revision is idempotent: saving the same message twice (same
  id, same content, same author and role) leaves the room in the state that saving it
  once gives. The in-memory log is the same list, and so is the table.
\<close>

theorem saveMessage_idempotent:
  "saveMessage (saveMessage st message) message = saveMessage st message"
proof (cases "find (\<lambda>m. id' m = id' message) (messages st)")
  case None
  have "find (\<lambda>m. id' m = id' message) (messages st @ [message]) = Some message"
    using None by (rule find_append_self)
  moreover have "map (\<lambda>m. if id' m = id' message then message else m) (messages st) = messages st"
    using None by (rule map_replace_absent)
  ultimately show ?thesis
    using None by (simp add: saveMessage_def sql_upsert_idem)
next
  case (Some e)
  then obtain e' where
    "find (\<lambda>m. id' m = id' message)
       (map (\<lambda>m. if id' m = id' message then message else m) (messages st)) = Some e'"
    using find_map_replace [of message "messages st"] by auto
  with Some show ?thesis
    by (simp add: saveMessage_def sql_upsert_idem map_replace_idem)
qed

lemma saveMessage_messages:
  "messages (saveMessage st m) =
     (if id' m \<in> set (map id' (messages st))
      then map (\<lambda>x. if id' x = id' m then m else x) (messages st)
      else messages st @ [m])"
  using find_id_None [of "id' m" "messages st"]
  by (auto simp: saveMessage_def split: option.splits)

lemma sql_upsert_eq:
  "sql_upsert rows m =
     (if id' m \<in> set (map id' rows)
      then map (\<lambda>r. if id' r = id' m then r\<lparr>content := content m\<rparr> else r) rows
      else rows @ [m])"
  using find_id_None [of "id' m" rows]
  by (auto simp: sql_upsert_def split: option.splits)

lemma saveMessage_table:
  "messages_table (saveMessage st m) = sql_upsert (messages_table st) m"
  by (simp add: saveMessage_def Let_def)

lemma map_id_replace:
  "map id' (map (\<lambda>x. if id' x = id' m then m else x) xs) = map id' xs"
  by (induction xs) auto

lemma foldl_saveMessage_distinct:
  "distinct (map id' (messages st @ ms)) \<Longrightarrow>
   messages (foldl saveMessage st ms) = messages st @ ms"
proof (induction ms arbitrary: st)
  case Nil
  then show ?case by simp
next
  case (Cons m ms)
  from Cons.prems have absent: "id' m \<notin> set (map id' (messages st))"
    by auto
  then have step: "messages (saveMessage st m) = messages st @ [m]"
    by (simp add: saveMessage_messages)
  with Cons.prems have "distinct (map id' (messages (saveMessage st m) @ ms))"
    by simp
  then have "messages (foldl saveMessage (saveMessage st m) ms) = messages (saveMessage st m) @ ms"
    by (rule Cons.IH)
  with step show ?case by simp
qed

lemma foldl_saveMessage_table_distinct:
  "distinct (map id' (messages_table st @ ms)) \<Longrightarrow>
   messages_table (foldl saveMessage st ms) = messages_table st @ ms"
proof (induction ms arbitrary: st)
  case Nil
  then show ?case by simp
next
  case (Cons m ms)
  from Cons.prems have absent: "id' m \<notin> set (map id' (messages_table st))"
    by auto
  then have step: "messages_table (saveMessage st m) = messages_table st @ [m]"
    by (simp add: saveMessage_table sql_upsert_eq)
  with Cons.prems have "distinct (map id' (messages_table (saveMessage st m) @ ms))"
    by simp
  then have "messages_table (foldl saveMessage (saveMessage st m) ms)
             = messages_table (saveMessage st m) @ ms"
    by (rule Cons.IH)
  with step show ?case by simp
qed

lemma saveMessage_distinct:
  "distinct (map id' (messages st)) \<Longrightarrow> distinct (map id' (messages (saveMessage st m)))"
  by (simp add: saveMessage_messages map_id_replace del: map_map)

lemma count_id_absent:
  "i \<notin> set (map id' xs) \<Longrightarrow> length (filter (\<lambda>x. id' x = i) xs) = 0"
  by (induction xs) auto

text \<open>
  Claim C6. Saving a message whose id is in the log puts the message in the place of
  the entry with that id: the sequence of ids is the same, the entry at each position
  with that id is the saved message (so its content is the new content), and every
  other entry is as before. Saving a message whose id is not in the log appends it:
  its id then occurs exactly once, and every other id occurs as often as before. In
  both cases a log without repeated ids stays without repeated ids.
\<close>

theorem saveMessage_update_in_place:
  "(id' m \<in> set (map id' (messages st)) \<longrightarrow>
      map id' (messages (saveMessage st m)) = map id' (messages st) \<and>
      (\<forall>i < length (messages st).
         messages (saveMessage st m) ! i =
           (if id' (messages st ! i) = id' m then m else messages st ! i))) \<and>
   (id' m \<notin> set (map id' (messages st)) \<longrightarrow>
      messages (saveMessage st m) = messages st @ [m] \<and>
      (\<forall>i. length (filter (\<lambda>x. id' x = i) (messages (saveMessage st m))) =
            (if i = id' m then 1 else length (filter (\<lambda>x. id' x = i) (messages st))))) \<and>
   (distinct (map id' (messages st)) \<longrightarrow> distinct (map id' (messages (saveMessage st m))))"
proof (intro conjI impI)
  assume present: "id' m \<in> set (map id' (messages st))"
  then show "map id' (messages (saveMessage st m)) = map id' (messages st)"
    by (simp add: saveMessage_messages map_id_replace del: map_map)
  from present show "\<forall>i < length (messages st).
         messages (saveMessage st m) ! i =
           (if id' (messages st ! i) = id' m then m else messages st ! i)"
    by (simp add: saveMessage_messages)
next
  assume absent: "id' m \<notin> set (map id' (messages st))"
  then show app: "messages (saveMessage st m) = messages st @ [m]"
    by (simp add: saveMessage_messages)
  show "\<forall>i. length (filter (\<lambda>x. id' x = i) (messages (saveMessage st m))) =
            (if i = id' m then 1 else length (filter (\<lambda>x. id' x = i) (messages st)))"
    using absent count_id_absent [of "id' m" "messages st"] by (simp add: app)
next
  assume "distinct (map id' (messages st))"
  then show "distinct (map id' (messages (saveMessage st m)))"
    by (rule saveMessage_distinct)
qed

lemma sql_upsert_keeps:
  "take (length rows) (map (\<lambda>r. (id' r, user r, role r)) (sql_upsert rows m))
   = map (\<lambda>r. (id' r, user r, role r)) rows"
  by (induction rows) (auto simp: sql_upsert_eq)

lemma map_take_prefix:
  assumes "take (length xs) ys = xs" "take (length ys) zs = ys"
  shows "take (length xs) zs = xs"
proof -
  have "length (take (length xs) ys) = length xs"
    using assms(1) by simp
  then have "length xs \<le> length ys"
    by simp
  then have "take (length xs) zs = take (length xs) (take (length ys) zs)"
    by (simp add: min_def)
  with assms show ?thesis by simp
qed

lemma foldl_saveMessage_keeps:
  "take (length (messages_table st))
     (map (\<lambda>r. (id' r, user r, role r)) (messages_table (foldl saveMessage st ms)))
   = map (\<lambda>r. (id' r, user r, role r)) (messages_table st)"
proof (induction ms arbitrary: st)
  case Nil
  then show ?case by simp
next
  case (Cons m ms)
  let ?p = "map (\<lambda>r. (id' r, user r, role r))"
  have a: "take (length (?p (messages_table st))) (?p (messages_table (saveMessage st m)))
           = ?p (messages_table st)"
    using sql_upsert_keeps [of "messages_table st" m] by (simp add: saveMessage_table)
  have b: "take (length (?p (messages_table (saveMessage st m))))
             (?p (messages_table (foldl saveMessage (saveMessage st m) ms)))
           = ?p (messages_table (saveMessage st m))"
    using Cons.IH [of "saveMessage st m"] by simp
  from map_take_prefix [OF a b] show ?case by simp
qed

text \<open>
  Claim C10. When the id of the saved message has a row in the table and an entry in the
  log, the write to the table changes the content column of that row and nothing else:
  the id, user and role columns of every row are as before, whereas the log entry is
  replaced by the whole message. Over any further sequence of saves the id, user and
  role of the rows already present stay what they are, that is, what the first write of
  each id stored.
\<close>

theorem saveMessage_durable_content_only:
  assumes "id' m \<in> set (map id' (messages_table st))"
      and "id' m \<in> set (map id' (messages st))"
  shows "map id' (messages_table (saveMessage st m)) = map id' (messages_table st)
       \<and> map user (messages_table (saveMessage st m)) = map user (messages_table st)
       \<and> map role (messages_table (saveMessage st m)) = map role (messages_table st)
       \<and> map content (messages_table (saveMessage st m))
           = map (\<lambda>r. if id' r = id' m then content m else content r) (messages_table st)
       \<and> messages (saveMessage st m)
           = map (\<lambda>x. if id' x = id' m then m else x) (messages st)
       \<and> take (length (messages_table st))
            (map (\<lambda>r. (id' r, user r, role r)) (messages_table (foldl saveMessage st ms)))
           = map (\<lambda>r. (id' r, user r, role r)) (messages_table st)"
proof -
  let ?f = "\<lambda>r. if id' r = id' m then r\<lparr>content := content m\<rparr> else r"
  have t: "messages_table (saveMessage st m) = map ?f (messages_table st)"
    using assms(1) by (simp add: saveMessage_table sql_upsert_eq)
  have "map id' (map ?f rows) = map id' rows" for rows :: "ChatMessage list"
    by (induction rows) auto
  moreover have "map user (map ?f rows) = map user rows" for rows :: "ChatMessage list"
    by (induction rows) auto
  moreover have "map role (map ?f rows) = map role rows" for rows :: "ChatMessage list"
    by (induction rows) auto
  moreover have "map content (map ?f rows)
      = map (\<lambda>r. if id' r = id' m then content m else content r) rows" for rows :: "ChatMessage list"
    by (induction rows) auto
  moreover have "messages (saveMessage st m)
           = map (\<lambda>x. if id' x = id' m then m else x) (messages st)"
    using assms(2) by (simp add: saveMessage_messages)
  ultimately show ?thesis
    using t foldl_saveMessage_keeps [of st ms] by simp
qed

theorem saveMessage_update_in_place_witness:
  "id' msg_edit \<in> set (map id' (messages (saveMessage empty_chat msg_hi)))
   \<and> messages (saveMessage (saveMessage empty_chat msg_hi) msg_edit) = [msg_edit]
   \<and> id' msg_yo \<notin> set (map id' (messages (saveMessage empty_chat msg_hi)))
   \<and> messages (saveMessage (saveMessage empty_chat msg_hi) msg_yo) = [msg_hi, msg_yo]
   \<and> distinct (map id' (messages (saveMessage (saveMessage empty_chat msg_hi) msg_yo)))"
proof -
  have log: "messages (saveMessage empty_chat msg_hi) = [msg_hi]"
    by (simp add: saveMessage_messages empty_chat_def)
  have present: "id' msg_edit \<in> set (map id' (messages (saveMessage empty_chat msg_hi)))"
    unfolding log by (simp add: msg_edit_def msg_hi_def)
  have absent: "id' msg_yo \<notin> set (map id' (messages (saveMessage empty_chat msg_hi)))"
    unfolding log by (simp add: msg_yo_def msg_hi_def)
  have d: "distinct (map id' (messages (saveMessage empty_chat msg_hi)))"
    by (simp add: log)
  have same: "id' msg_hi = id' msg_edit"
    by (simp add: msg_edit_def msg_hi_def)
  from saveMessage_update_in_place [of msg_edit "saveMessage empty_chat msg_hi"] present
  have "messages (saveMessage (saveMessage empty_chat msg_hi) msg_edit) ! 0 = msg_edit"
    and "length (messages (saveMessage (saveMessage empty_chat msg_hi) msg_edit)) = 1"
    using log same by (simp_all add: saveMessage_messages)
  then have one: "messages (saveMessage (saveMessage empty_chat msg_hi) msg_edit) = [msg_edit]"
    by (cases "messages (saveMessage (saveMessage empty_chat msg_hi) msg_edit)") simp_all
  from saveMessage_update_in_place [of msg_yo "saveMessage empty_chat msg_hi"] absent d
  have "messages (saveMessage (saveMessage empty_chat msg_hi) msg_yo) = [msg_hi, msg_yo]"
    and "distinct (map id' (messages (saveMessage (saveMessage empty_chat msg_hi) msg_yo)))"
    using log by simp_all
  with present absent one show ?thesis
    by simp
qed

theorem saveMessage_durable_content_only_witness:
  "id' msg_edit \<in> set (map id' (messages_table (saveMessage empty_chat msg_hi)))
   \<and> id' msg_edit \<in> set (map id' (messages (saveMessage empty_chat msg_hi)))
   \<and> messages_table (saveMessage (saveMessage empty_chat msg_hi) msg_edit)
       = [\<lparr>id' = ''m1'', content = ''hello'', user = ''alice'', role = ''user''\<rparr>]
   \<and> messages (saveMessage (saveMessage empty_chat msg_hi) msg_edit)
       = [\<lparr>id' = ''m1'', content = ''hello'', user = ''carol'', role = ''assistant''\<rparr>]"
proof -
  have log: "messages (saveMessage empty_chat msg_hi) = [msg_hi]"
    by (simp add: saveMessage_messages empty_chat_def)
  have tab: "messages_table (saveMessage empty_chat msg_hi) = [msg_hi]"
    by (simp add: saveMessage_table sql_upsert_eq empty_chat_def)
  have a: "id' msg_edit \<in> set (map id' (messages_table (saveMessage empty_chat msg_hi)))"
    unfolding tab by (simp add: msg_edit_def msg_hi_def)
  have b: "id' msg_edit \<in> set (map id' (messages (saveMessage empty_chat msg_hi)))"
    unfolding log by (simp add: msg_edit_def msg_hi_def)
  let ?t = "messages_table (saveMessage (saveMessage empty_chat msg_hi) msg_edit)"
  from saveMessage_durable_content_only [OF a b, of "[]"]
  have cols: "map id' ?t = [''m1'']" "map user ?t = [''alice'']" "map role ?t = [''user'']"
    "map content ?t = [''hello'']"
    and mem: "messages (saveMessage (saveMessage empty_chat msg_hi) msg_edit) = [msg_edit]"
    unfolding tab log by (simp_all add: msg_hi_def msg_edit_def)
  from cols obtain r where r: "?t = [r]"
    by (cases ?t) auto
  with cols have "r = \<lparr>id' = ''m1'', content = ''hello'', user = ''alice'', role = ''user''\<rparr>"
    by simp
  with r a b mem show ?thesis
    by (simp add: msg_edit_def)
qed

section \<open>Properties of the handlers\<close>

lemma update_contents_append:
  "update_contents i (xs @ ys) = update_contents i xs @ update_contents i ys"
  by (induction i xs rule: update_contents.induct) auto

lemma update_contents_broadcasts:
  "update_contents (id' ai) (map (\<lambda>c. broadcastMessage (Update (ai\<lparr>content := c\<rparr>)) []) cs) = cs"
  by (induction cs) (simp_all add: broadcastMessage_def)

lemma partial_contents_eq:
  "partial_contents buffer rs =
     map (\<lambda>k. buffer @ concat (take (Suc k) rs) @ ''...'') [0..<length rs]"
proof (induction rs arbitrary: buffer)
  case Nil
  then show ?case by simp
next
  case (Cons r rs)
  have "[0..<length (r # rs)] = 0 # map Suc [0..<length rs]"
    by (simp add: upt_conv_Cons map_Suc_upt del: upt_Suc)
  then show ?case
    by (simp add: Cons.IH comp_def del: upt_Suc)
qed

lemma for_await_responses:
  "for_await ai buffer st (map Data_Response rs @ rest) =
     (let r = for_await ai (buffer @ concat rs) st rest
      in r\<lparr>trace := map (\<lambda>c. broadcastMessage (Update (ai\<lparr>content := c\<rparr>)) [])
                         (partial_contents buffer rs) @ trace r\<rparr>)"
  by (induction rs arbitrary: buffer) (simp_all add: Let_def)

lemma for_await_stream:
  "for_await ai buffer st (map Data_Response rs @ [Data_Done]) =
     \<lparr>trace = map (\<lambda>c. broadcastMessage (Update (ai\<lparr>content := c\<rparr>)) [])
                 (partial_contents buffer rs)
              @ [Save (ai\<lparr>content := buffer @ concat rs\<rparr>),
                 broadcastMessage (Update (ai\<lparr>content := buffer @ concat rs\<rparr>)) []],
      chat = saveMessage st (ai\<lparr>content := buffer @ concat rs\<rparr>),
      thrown = None\<rparr>"
  by (simp add: for_await_responses Let_def)

lemma onMessage_add:
  "onMessage Ai nanoid st connection (Json (Msg (Add parsed))) =
     (let st1 = saveMessage st parsed;
          prompt = map (\<lambda>m. (content m, role m)) (messages st1);
          before = [Broadcast (Json (Msg (Add parsed))) [], Save parsed,
                    broadcastMessage (Add (aiMessage nanoid)) [], Ai_run prompt]
      in case Ai prompt of
           Inl e \<Rightarrow> \<lparr>trace = before, chat = st1, thrown = Some e\<rparr>
         | Inr eventStream \<Rightarrow>
             (let r = for_await (aiMessage nanoid) [] (saveMessage st1 (aiMessage nanoid)) eventStream
              in r\<lparr>trace := before @ Save (aiMessage nanoid) # trace r\<rparr>))"
  by (simp add: onMessage_def Let_def)

lemma onMessage_add_stream:
  assumes "Ai (map (\<lambda>m. (content m, role m)) (messages (saveMessage st parsed)))
             = Inr (map Data_Response rs @ [Data_Done])"
  shows "onMessage Ai nanoid st connection (Json (Msg (Add parsed))) =
     \<lparr>trace = [Broadcast (Json (Msg (Add parsed))) [], Save parsed,
               broadcastMessage (Add (aiMessage nanoid)) [],
               Ai_run (map (\<lambda>m. (content m, role m)) (messages (saveMessage st parsed))),
               Save (aiMessage nanoid)]
              @ map (\<lambda>c. broadcastMessage (Update ((aiMessage nanoid)\<lparr>content := c\<rparr>)) [])
                  (partial_contents [] rs)
              @ [Save ((aiMessage nanoid)\<lparr>content := concat rs\<rparr>),
                 broadcastMessage (Update ((aiMessage nanoid)\<lparr>content := concat rs\<rparr>)) []],
      chat = saveMessage (saveMessage (saveMessage st parsed) (aiMessage nanoid))
               ((aiMessage nanoid)\<lparr>content := concat rs\<rparr>),
      thrown = None\<rparr>"
  using assms by (simp add: onMessage_add for_await_stream Let_def)

lemma find_saved:
  "\<exists>r. find (\<lambda>x. id' x = id' m) (messages (saveMessage st m)) = Some r \<and> content r = content m"
proof (cases "id' m \<in> set (map id' (messages st))")
  case True
  have "\<exists>r. find (\<lambda>x. id' x = id' m) (map (\<lambda>x. if id' x = id' m then m else x) xs) = Some r
            \<and> content r = content m"
    if "id' m \<in> set (map id' xs)" for xs :: "ChatMessage list"
    using that by (induction xs) auto
  with True show ?thesis
    by (simp add: saveMessage_messages)
next
  case False
  then have "find (\<lambda>x. id' x = id' m) (messages st) = None"
    by (simp add: find_id_None)
  then have "find (\<lambda>x. id' x = id' m) (messages st @ [m]) = Some m"
    by (rule find_append_self)
  with False show ?thesis
    by (simp add: saveMessage_messages)
qed

lemma find_upserted:
  "\<exists>r. find (\<lambda>x. id' x = id' m) (messages_table (saveMessage st m)) = Some r
       \<and> content r = content m"
proof (cases "id' m \<in> set (map id' (messages_table st))")
  case True
  have "\<exists>r. find (\<lambda>x. id' x = id' m)
              (map (\<lambda>r. if id' r = id' m then r\<lparr>content := content m\<rparr> else r) xs) = Some r
            \<and> content r = content m"
    if "id' m \<in> set (map id' xs)" for xs :: "ChatMessage list"
    using that by (induction xs) auto
  with True show ?thesis
    by (simp add: saveMessage_table sql_upsert_eq)
next
  case False
  then have "find (\<lambda>x. id' x = id' m) (messages_table st) = None"
    by (simp add: find_id_None)
  then have "find (\<lambda>x. id' x = id' m) (messages_table st @ [m]) = Some m"
    by (rule find_append_self)
  with False show ?thesis
    by (simp add: saveMessage_table sql_upsert_eq)
qed

lemma stored_content_saved:
  "stored_content (id' m) (saveMessage st m) = Some (content m)"
  using find_saved [of m st] by (auto simp: stored_content_def)

lemma durable_content_saved:
  "durable_content (id' m) (saveMessage st m) = Some (content m)"
  using find_upserted [of m st] by (auto simp: durable_content_def)

text \<open>
  Claim C1, as amended. When the backend answers an \<open>add\<close> event with fragments followed
  by the end marker, the \<open>update\<close> events broadcast for the reply id are, in order: after
  the k-th fragment, the concatenation of the first k fragments followed by the three
  dots; and last, without the dots, the concatenation of all fragments. That last
  content is what the log and the table hold for the reply id.
\<close>

theorem reply_updates_cumulative:
  assumes "Ai (map (\<lambda>m. (content m, role m)) (messages (saveMessage st parsed)))
             = Inr (map Data_Response rs @ [Data_Done])"
  shows "update_contents nanoid (trace (onMessage Ai nanoid st connection (Json (Msg (Add parsed)))))
           = map (\<lambda>k. concat (take (Suc k) rs) @ ''...'') [0..<length rs] @ [concat rs]
       \<and> stored_content nanoid (chat (onMessage Ai nanoid st connection (Json (Msg (Add parsed)))))
           = Some (concat rs)
       \<and> durable_content nanoid (chat (onMessage Ai nanoid st connection (Json (Msg (Add parsed)))))
           = Some (concat rs)"
proof -
  let ?ai = "aiMessage nanoid"
  let ?final = "?ai\<lparr>content := concat rs\<rparr>"
  have i: "id' ?ai = nanoid" "id' ?final = nanoid" "content ?final = concat rs"
    by (simp_all add: aiMessage_def)
  note run = onMessage_add_stream [of Ai st parsed rs nanoid connection, OF assms]
  have "update_contents nanoid
          (map (\<lambda>c. broadcastMessage (Update (?ai\<lparr>content := c\<rparr>)) []) (partial_contents [] rs))
        = partial_contents [] rs"
    using update_contents_broadcasts [of ?ai] i(1) by simp
  then have u: "update_contents nanoid
      (trace (onMessage Ai nanoid st connection (Json (Msg (Add parsed)))))
      = partial_contents [] rs @ [concat rs]"
    using i by (simp add: run update_contents_append
        broadcastMessage_def)
  have s: "stored_content nanoid (saveMessage st' ?final) = Some (concat rs)" for st'
    using stored_content_saved [of ?final st'] i by simp
  have d: "durable_content nanoid (saveMessage st' ?final) = Some (concat rs)" for st'
    using durable_content_saved [of ?final st'] i by simp
  from u s d show ?thesis
    by (simp add: run partial_contents_eq)
qed

lemma example_saved:
  "saveMessage empty_chat msg_hi = \<lparr>messages = [msg_hi], messages_table = [msg_hi]\<rparr>"
  by (simp add: saveMessage_def empty_chat_def sql_upsert_def)

lemma example_prompt:
  "map (\<lambda>m. (content m, role m)) (messages (saveMessage empty_chat msg_hi)) = [(''hi'', ''user'')]"
  unfolding example_saved by (simp add: msg_hi_def)

lemma example_stream:
  "Ai_example p = Inr (map Data_Response [''Hi'', ''!''] @ [Data_Done])"
  by (simp add: Ai_example_def)

theorem reply_updates_cumulative_witness:
  "Ai_example (map (\<lambda>m. (content m, role m)) (messages (saveMessage empty_chat msg_hi)))
     = Inr (map Data_Response [''Hi'', ''!''] @ [Data_Done])
   \<and> update_contents ''ai1''
        (trace (onMessage Ai_example ''ai1'' empty_chat ''c1'' (Json (Msg (Add msg_hi)))))
       = [''Hi...'', ''Hi!...'', ''Hi!'']
   \<and> stored_content ''ai1''
        (chat (onMessage Ai_example ''ai1'' empty_chat ''c1'' (Json (Msg (Add msg_hi)))))
       = Some ''Hi!''
   \<and> durable_content ''ai1''
        (chat (onMessage Ai_example ''ai1'' empty_chat ''c1'' (Json (Msg (Add msg_hi)))))
       = Some ''Hi!''"
proof -
  have up: "[0..<length [''Hi'', ''!'']] = [0, Suc 0]"
    by (simp add: upt_conv_Cons)
  from reply_updates_cumulative
    [of Ai_example empty_chat msg_hi "[''Hi'', ''!'']" "''ai1''" "''c1''", OF example_stream]
  show ?thesis
    unfolding up by (simp add: example_stream)
qed

text \<open>
  The claim as stated fails: every update carries the whole buffer, so the concatenation
  of the stripped contents repeats the earlier fragments.
\<close>

theorem reply_updates_concat_counterexample:
  "concat (map strip_indicator (update_contents ''ai1''
      (trace (onMessage Ai_example ''ai1'' empty_chat ''c1'' (Json (Msg (Add msg_hi)))))))
     = ''HiHi!Hi!''
   \<and> stored_content ''ai1''
        (chat (onMessage Ai_example ''ai1'' empty_chat ''c1'' (Json (Msg (Add msg_hi)))))
       = Some ''Hi!''"
proof -
  note run = onMessage_add_stream
    [of Ai_example empty_chat msg_hi "[''Hi'', ''!'']" "''ai1''" "''c1''", OF example_stream]
  have "update_contents ''ai1''
      (trace (onMessage Ai_example ''ai1'' empty_chat ''c1'' (Json (Msg (Add msg_hi)))))
        = [''Hi...'', ''Hi!...'', ''Hi!'']"
    by (simp add: run broadcastMessage_def aiMessage_def)
  moreover have "concat (map strip_indicator [''Hi...'', ''Hi!...'', ''Hi!'']) = ''HiHi!Hi!''"
    by (simp add: strip_indicator_def)
  moreover have "stored_content ''ai1''
        (chat (onMessage Ai_example ''ai1'' empty_chat ''c1'' (Json (Msg (Add msg_hi)))))
       = Some ''Hi!''"
    using stored_content_saved [of "(aiMessage ''ai1'')\<lparr>content := ''Hi!''\<rparr>"]
    by (simp add: run aiMessage_def)
  ultimately show ?thesis
    by simp
qed

text \<open>
  Claim C2, as amended. For an \<open>add\<close> event the handler relays the payload, saves the
  user's message, broadcasts the placeholder (the generated id, content \<open>...\<close>, user
  \<open>AI\<close>, role \<open>assistant\<close>) as an \<open>add\<close> event excluding no connection, and then calls
  the backend. The placeholder is saved only after the backend has returned its stream,
  before the first event of the stream is read; when the call is rejected the handler
  throws and the placeholder is not saved.
\<close>

theorem placeholder_broadcast_before_backend:
  "take 4 (trace (onMessage Ai nanoid st connection (Json (Msg (Add parsed)))))
     = [Broadcast (Json (Msg (Add parsed))) [], Save parsed,
        Broadcast (Json (Msg (Add \<lparr>id' = nanoid, content = ''...'', user = ''AI'',
                                   role = ''assistant''\<rparr>))) [],
        Ai_run (map (\<lambda>m. (content m, role m)) (messages (saveMessage st parsed)))]
   \<and> (\<forall>eventStream.
        Ai (map (\<lambda>m. (content m, role m)) (messages (saveMessage st parsed))) = Inr eventStream
        \<longrightarrow> trace (onMessage Ai nanoid st connection (Json (Msg (Add parsed))))
            = take 4 (trace (onMessage Ai nanoid st connection (Json (Msg (Add parsed)))))
              @ Save (aiMessage nanoid)
              # trace (for_await (aiMessage nanoid) []
                        (saveMessage (saveMessage st parsed) (aiMessage nanoid)) eventStream))
   \<and> (\<forall>e.
        Ai (map (\<lambda>m. (content m, role m)) (messages (saveMessage st parsed))) = Inl e
        \<longrightarrow> length (trace (onMessage Ai nanoid st connection (Json (Msg (Add parsed))))) = 4
          \<and> chat (onMessage Ai nanoid st connection (Json (Msg (Add parsed))))
              = saveMessage st parsed
          \<and> thrown (onMessage Ai nanoid st connection (Json (Msg (Add parsed)))) = Some e)"
  by (cases "Ai (map (\<lambda>m. (content m, role m)) (messages (saveMessage st parsed)))")
    (simp_all add: onMessage_add Let_def broadcastMessage_def aiMessage_def)

text \<open>
  The claim as stated fails: the save of the placeholder follows the call of the backend.
\<close>

theorem placeholder_saved_after_backend_counterexample:
  "take 5 (trace (onMessage Ai_example ''ai1'' empty_chat ''c1'' (Json (Msg (Add msg_hi)))))
     = [Broadcast (Json (Msg (Add msg_hi))) [],
        Save msg_hi,
        Broadcast (Json (Msg (Add (aiMessage ''ai1'')))) [],
        Ai_run [(''hi'', ''user'')],
        Save (aiMessage ''ai1'')]"
  by (simp add: onMessage_add example_prompt Let_def broadcastMessage_def Ai_example_def)

theorem placeholder_broadcast_before_backend_witness:
  "Ai_example (map (\<lambda>m. (content m, role m)) (messages (saveMessage empty_chat msg_hi)))
     = Inr [Data_Response ''Hi'', Data_Response ''!'', Data_Done]
   \<and> trace (onMessage Ai_example ''ai1'' empty_chat ''c1'' (Json (Msg (Add msg_hi)))) ! 4
       = Save (aiMessage ''ai1'')
   \<and> Ai_down (map (\<lambda>m. (content m, role m)) (messages (saveMessage empty_chat msg_hi)))
       = Inl Rejected
   \<and> trace (onMessage Ai_down ''ai1'' empty_chat ''c1'' (Json (Msg (Add msg_hi))))
       = [Broadcast (Json (Msg (Add msg_hi))) [],
          Save msg_hi,
          Broadcast (Json (Msg (Add (aiMessage ''ai1'')))) [],
          Ai_run [(''hi'', ''user'')]]
   \<and> chat (onMessage Ai_down ''ai1'' empty_chat ''c1'' (Json (Msg (Add msg_hi))))
       = \<lparr>messages = [msg_hi], messages_table = [msg_hi]\<rparr>
   \<and> thrown (onMessage Ai_down ''ai1'' empty_chat ''c1'' (Json (Msg (Add msg_hi))))
       = Some Rejected"
proof -
  have a: "Ai_example (map (\<lambda>m. (content m, role m)) (messages (saveMessage empty_chat msg_hi)))
     = Inr [Data_Response ''Hi'', Data_Response ''!'', Data_Done]"
    by (simp add: Ai_example_def)
  have b: "Ai_down (map (\<lambda>m. (content m, role m)) (messages (saveMessage empty_chat msg_hi)))
       = Inl Rejected"
    by (simp add: Ai_down_def)
  note p = example_prompt
  let ?r = "onMessage Ai_example ''ai1'' empty_chat ''c1'' (Json (Msg (Add msg_hi)))"
  from placeholder_broadcast_before_backend [of Ai_example "''ai1''" empty_chat "''c1''" msg_hi] a
  have len: "length (take 4 (trace ?r)) = 4"
    and "\<exists>rest. trace ?r = take 4 (trace ?r) @ Save (aiMessage ''ai1'') # rest"
    by (simp, blast)
  then have "trace ?r ! 4 = Save (aiMessage ''ai1'')"
    by (metis nth_append_length)
  moreover
  from placeholder_broadcast_before_backend [of Ai_down "''ai1''" empty_chat "''c1''" msg_hi] b
  have "take 4 (trace (onMessage Ai_down ''ai1'' empty_chat ''c1'' (Json (Msg (Add msg_hi)))))
       = [Broadcast (Json (Msg (Add msg_hi))) [], Save msg_hi,
          Broadcast (Json (Msg (Add (aiMessage ''ai1'')))) [], Ai_run [(''hi'', ''user'')]]"
    and "length (trace (onMessage Ai_down ''ai1'' empty_chat ''c1'' (Json (Msg (Add msg_hi))))) = 4"
    and "chat (onMessage Ai_down ''ai1'' empty_chat ''c1'' (Json (Msg (Add msg_hi))))
       = \<lparr>messages = [msg_hi], messages_table = [msg_hi]\<rparr>"
    and "thrown (onMessage Ai_down ''ai1'' empty_chat ''c1'' (Json (Msg (Add msg_hi))))
       = Some Rejected"
    unfolding p by (simp_all add: example_saved aiMessage_def)
  ultimately show ?thesis
    using a b by simp
qed

lemma prompts_append: "prompts (xs @ ys) = prompts xs @ prompts ys"
  by (induction xs rule: prompts.induct) auto

lemma prompts_for_await: "prompts (trace (for_await ai buffer st events)) = []"
  by (induction ai buffer st events rule: for_await.induct)
    (simp_all add: Let_def broadcastMessage_def)

lemma saved_id_in_log: "id' m \<in> set (map id' (messages (saveMessage st m)))"
proof (cases "id' m \<in> set (map id' (messages st))")
  case True
  then have "map id' (messages (saveMessage st m)) = map id' (messages st)"
    by (simp add: saveMessage_messages map_id_replace del: map_map)
  with True show ?thesis by simp
next
  case False
  then show ?thesis by (simp add: saveMessage_messages)
qed

text \<open>
  Claim C3, as amended. A payload that is not an \<open>add\<close> or \<open>update\<close> event is relayed
  first, and neither the store nor the backend is touched. What follows depends on the
  payload: text that is not JSON makes \<open>JSON.parse\<close> throw a SyntaxError, and the
  JSON text \<open>null\<close> makes the read of \<open>parsed.type\<close> throw a TypeError, so the handler
  raises; any other JSON value, a snapshot event among them, is skipped silently.
\<close>

theorem malformed_payload_relayed_then_skipped:
  "onMessage Ai nanoid st connection (Not_Json text) =
     \<lparr>trace = [Broadcast (Not_Json text) []], chat = st, thrown = Some SyntaxError\<rparr>
   \<and> onMessage Ai nanoid st connection (Json Null) =
     \<lparr>trace = [Broadcast (Json Null) []], chat = st, thrown = Some TypeError\<rparr>
   \<and> onMessage Ai nanoid st connection (Json (Other_value v)) =
     \<lparr>trace = [Broadcast (Json (Other_value v)) []], chat = st, thrown = None\<rparr>
   \<and> onMessage Ai nanoid st connection (Json (Msg (AllMessages ms))) =
     \<lparr>trace = [Broadcast (Json (Msg (AllMessages ms))) []], chat = st, thrown = None\<rparr>"
  by (simp add: onMessage_def)

text \<open>
  The claim as stated fails: on text that is not JSON the handler raises an error.
\<close>

theorem malformed_payload_throws_counterexample:
  "thrown (onMessage Ai_example ''ai1'' empty_chat ''c1'' (Not_Json ''hello'')) = Some SyntaxError"
  by (simp add: onMessage_def)

lemma for_await_append:
  "Data_Invalid \<notin> set events \<Longrightarrow>
   for_await ai buffer st (events @ rest) =
     (let r = for_await ai buffer st events;
          r' = for_await ai (buffer @ fragments events) (chat r) rest
      in r'\<lparr>trace := trace r @ trace r'\<rparr>)"
proof (induction events arbitrary: buffer st)
  case Nil
  then show ?case by (simp add: Let_def)
next
  case (Cons e events)
  then show ?case
    by (cases e) (simp_all add: Let_def)
qed

text \<open>
  Claim C7. A stream that ends in the end marker, whatever fragments and markers come
  before it (no event of the stream being unreadable, since the loop would throw there):
  on the last marker the loop saves the reply with the accumulated buffer as content,
  without the three dots, and then broadcasts one \<open>update\<close> event with that same
  content; these two are its last effects. After that the log and the table hold the
  buffer as the content of the reply id. In the handler the buffer starts empty, so the
  content saved, broadcast last and held by the store is the concatenation of the
  fragments of the stream.
\<close>

theorem end_of_stream_final_update:
  "(Data_Invalid \<notin> set events \<longrightarrow>
      for_await ai buffer st (events @ [Data_Done]) =
        \<lparr>trace = trace (for_await ai buffer st events)
                 @ [Save (ai\<lparr>content := buffer @ fragments events\<rparr>),
                    Broadcast (Json (Msg (Update (ai\<lparr>content := buffer @ fragments events\<rparr>)))) []],
         chat = saveMessage (chat (for_await ai buffer st events))
                  (ai\<lparr>content := buffer @ fragments events\<rparr>),
         thrown = None\<rparr>
      \<and> stored_content (id' ai) (chat (for_await ai buffer st (events @ [Data_Done])))
          = Some (buffer @ fragments events)
      \<and> durable_content (id' ai) (chat (for_await ai buffer st (events @ [Data_Done])))
          = Some (buffer @ fragments events))
   \<and> (Data_Invalid \<notin> set events
       \<and> Ai (map (\<lambda>m. (content m, role m)) (messages (saveMessage st parsed)))
           = Inr (events @ [Data_Done]) \<longrightarrow>
      trace (onMessage Ai nanoid st connection (Json (Msg (Add parsed)))) =
        [Broadcast (Json (Msg (Add parsed))) [], Save parsed,
         Broadcast (Json (Msg (Add (aiMessage nanoid)))) [],
         Ai_run (map (\<lambda>m. (content m, role m)) (messages (saveMessage st parsed))),
         Save (aiMessage nanoid)]
        @ trace (for_await (aiMessage nanoid) []
                  (saveMessage (saveMessage st parsed) (aiMessage nanoid)) events)
        @ [Save \<lparr>id' = nanoid, content = fragments events, user = ''AI'', role = ''assistant''\<rparr>,
           Broadcast (Json (Msg (Update \<lparr>id' = nanoid, content = fragments events, user = ''AI'',
                                         role = ''assistant''\<rparr>))) []]
      \<and> stored_content nanoid (chat (onMessage Ai nanoid st connection (Json (Msg (Add parsed)))))
          = Some (fragments events)
      \<and> durable_content nanoid (chat (onMessage Ai nanoid st connection (Json (Msg (Add parsed)))))
          = Some (fragments events)
      \<and> thrown (onMessage Ai nanoid st connection (Json (Msg (Add parsed)))) = None)"
proof (intro conjI impI)
  assume ok: "Data_Invalid \<notin> set events"
  let ?final = "ai\<lparr>content := buffer @ fragments events\<rparr>"
  show loop: "for_await ai buffer st (events @ [Data_Done]) =
        \<lparr>trace = trace (for_await ai buffer st events)
                 @ [Save ?final, Broadcast (Json (Msg (Update ?final))) []],
         chat = saveMessage (chat (for_await ai buffer st events)) ?final,
         thrown = None\<rparr>"
    using ok by (simp add: for_await_append Let_def broadcastMessage_def)
  show "stored_content (id' ai) (chat (for_await ai buffer st (events @ [Data_Done])))
          = Some (buffer @ fragments events)"
    using stored_content_saved [of ?final "chat (for_await ai buffer st events)"]
    by (simp add: loop)
  show "durable_content (id' ai) (chat (for_await ai buffer st (events @ [Data_Done])))
          = Some (buffer @ fragments events)"
    using durable_content_saved [of ?final "chat (for_await ai buffer st events)"]
    by (simp add: loop)
next
  assume h: "Data_Invalid \<notin> set events
       \<and> Ai (map (\<lambda>m. (content m, role m)) (messages (saveMessage st parsed)))
           = Inr (events @ [Data_Done])"
  let ?ai = "aiMessage nanoid"
  let ?st2 = "saveMessage (saveMessage st parsed) ?ai"
  let ?final = "\<lparr>id' = nanoid, content = fragments events, user = ''AI'', role = ''assistant''\<rparr>"
  have final: "?ai\<lparr>content := [] @ fragments events\<rparr> = ?final"
    by (simp add: aiMessage_def)
  have loop: "for_await ?ai [] ?st2 (events @ [Data_Done]) =
        \<lparr>trace = trace (for_await ?ai [] ?st2 events)
                 @ [Save ?final, Broadcast (Json (Msg (Update ?final))) []],
         chat = saveMessage (chat (for_await ?ai [] ?st2 events)) ?final,
         thrown = None\<rparr>"
    using h final by (simp add: for_await_append Let_def broadcastMessage_def)
  have run: "onMessage Ai nanoid st connection (Json (Msg (Add parsed))) =
      \<lparr>trace = [Broadcast (Json (Msg (Add parsed))) [], Save parsed,
         Broadcast (Json (Msg (Add ?ai))) [],
         Ai_run (map (\<lambda>m. (content m, role m)) (messages (saveMessage st parsed))),
         Save ?ai]
        @ trace (for_await ?ai [] ?st2 events)
        @ [Save ?final, Broadcast (Json (Msg (Update ?final))) []],
       chat = saveMessage (chat (for_await ?ai [] ?st2 events)) ?final,
       thrown = None\<rparr>"
    using h by (simp add: onMessage_add Let_def loop broadcastMessage_def)
  show "trace (onMessage Ai nanoid st connection (Json (Msg (Add parsed)))) =
        [Broadcast (Json (Msg (Add parsed))) [], Save parsed,
         Broadcast (Json (Msg (Add ?ai))) [],
         Ai_run (map (\<lambda>m. (content m, role m)) (messages (saveMessage st parsed))),
         Save ?ai]
        @ trace (for_await ?ai [] ?st2 events)
        @ [Save ?final, Broadcast (Json (Msg (Update ?final))) []]"
    by (simp add: run)
  show "stored_content nanoid (chat (onMessage Ai nanoid st connection (Json (Msg (Add parsed)))))
          = Some (fragments events)"
    using stored_content_saved [of ?final "chat (for_await ?ai [] ?st2 events)"]
    by (simp add: run)
  show "durable_content nanoid (chat (onMessage Ai nanoid st connection (Json (Msg (Add parsed)))))
          = Some (fragments events)"
    using durable_content_saved [of ?final "chat (for_await ?ai [] ?st2 events)"]
    by (simp add: run)
  show "thrown (onMessage Ai nanoid st connection (Json (Msg (Add parsed)))) = None"
    by (simp add: run)
qed


lemma received_append: "received c (xs @ ys) = received c xs @ received c ys"
  by (simp add: received_def)

lemma received_map_absent:
  "c \<notin> set xs \<Longrightarrow> received c (map (\<lambda>x. (x, payload)) xs) = []"
  by (induction xs) (auto simp: received_def)

lemma received_Nil: "received c [] = []"
  by (simp add: received_def)

lemma received_for_await:
  "c \<notin> set conns \<Longrightarrow>
   received c (concat (map (deliver conns) (trace (for_await ai buffer st events)))) = []"
proof (induction ai buffer st events rule: for_await.induct)
  case (1 ai buffer st)
  then show ?case by (simp add: received_def)
next
  case (2 ai buffer st response events)
  then show ?case
    by (simp add: Let_def broadcastMessage_def received_append received_map_absent)
next
  case (3 ai buffer st events)
  then show ?case
    by (simp add: Let_def broadcastMessage_def received_append received_map_absent)
next
  case (4 ai buffer st events)
  then show ?case by (simp add: received_def)
qed

lemma received_onMessage:
  assumes "c \<notin> set conns"
  shows "received c (concat (map (deliver conns) (trace (onMessage Ai nanoid st from_c message)))) = []"
proof -
  note b = received_map_absent [OF assms]
  note e = received_Nil
  show ?thesis
  proof (cases message)
    case (Not_Json raw)
    then show ?thesis using b by (simp add: onMessage_def)
  next
    case (Json v)
    show ?thesis
    proof (cases v)
      case Null
      with Json show ?thesis using b by (simp add: onMessage_def)
    next
      case (Other_value x)
      with Json show ?thesis using b by (simp add: onMessage_def)
    next
      case (Msg m)
      show ?thesis
      proof (cases m)
        case (AllMessages ms)
        with Json Msg show ?thesis using b by (simp add: onMessage_def)
      next
        case (Update parsed)
        with Json Msg show ?thesis using b by (simp add: onMessage_def received_append e)
      next
        case (Add parsed)
        show ?thesis
        proof (cases "Ai (map (\<lambda>m. (content m, role m)) (messages (saveMessage st parsed)))")
          case (Inl err)
          with Json Msg Add show ?thesis
            using b by (simp add: onMessage_add Let_def broadcastMessage_def received_append e)
        next
          case (Inr events)
          with Json Msg Add show ?thesis
            using b received_for_await [OF assms]
            by (simp add: onMessage_add Let_def broadcastMessage_def received_append e)
        qed
      qed
    qed
  qed
qed

lemma start_add:
  "start Ai nanoid st connection (Json (Msg (Add parsed))) =
     ([Broadcast (Json (Msg (Add parsed))) [], Save parsed,
       broadcastMessage (Add (aiMessage nanoid)) [],
       Ai_run (map (\<lambda>m. (content m, role m)) (messages (saveMessage st parsed)))],
      saveMessage st parsed,
      Some (Awaiting_Ai (aiMessage nanoid)
             (Ai (map (\<lambda>m. (content m, role m)) (messages (saveMessage st parsed))))))"
  by (simp add: start_def Let_def)

lemma start_other:
  "(\<And>parsed. message \<noteq> Json (Msg (Add parsed))) \<Longrightarrow>
   start Ai nanoid st connection message =
     (trace (onMessage Ai nanoid st connection message),
      chat (onMessage Ai nanoid st connection message), None)"
  by (auto simp: start_def Let_def split: WSMessage.splits json_value.splits Message.splits)

lemma received_start:
  assumes "c \<notin> set conns"
  shows "received c (concat (map (deliver conns) (fst (start Ai nanoid st from_c message)))) = []"
proof (cases "\<exists>parsed. message = Json (Msg (Add parsed))")
  case True
  then show ?thesis
    using received_map_absent [OF assms]
    by (auto simp: start_add broadcastMessage_def received_append received_Nil)
next
  case False
  then have "start Ai nanoid st from_c message =
     (trace (onMessage Ai nanoid st from_c message),
      chat (onMessage Ai nanoid st from_c message), None)"
    by (intro start_other) auto
  then show ?thesis
    using received_onMessage [OF assms] by simp
qed

lemma received_resume:
  assumes "c \<notin> set conns"
  shows "received c (concat (map (deliver conns) (fst (resume st t)))) = []"
  using received_map_absent [OF assms]
  by (cases "(st, t)" rule: resume.cases)
    (simp_all add: broadcastMessage_def received_append received_Nil)

lemma run_room_append:
  "run_room room (xs @ ys) =
     (fst (run_room room xs) @ fst (run_room (snd (run_room room xs)) ys),
      snd (run_room (snd (run_room room xs)) ys))"
  by (induction xs arbitrary: room) (simp_all add: Let_def case_prod_unfold)

lemma nothing_before_accept:
  "c \<notin> set (connections room) \<Longrightarrow> Accept c \<notin> set before \<Longrightarrow>
   received c (fst (run_room room before)) = []
   \<and> c \<notin> set (connections (snd (run_room room before)))"
proof (induction before arbitrary: room)
  case Nil
  then show ?case by (simp add: received_def)
next
  case (Cons e before)
  have step: "received c (fst (room_step room e)) = []
      \<and> c \<notin> set (connections (snd (room_step room e)))"
  proof (cases e)
    case (Accept c')
    with Cons.prems have "c' \<noteq> c" by auto
    with Accept Cons.prems(1) show ?thesis
      by (simp add: Let_def onConnect_def received_def)
  next
    case (Inbound Ai nanoid from_c message)
    with Cons.prems(1) show ?thesis
      using received_start [of c "connections room" Ai nanoid "store room" from_c message]
      by (simp add: case_prod_unfold)
  next
    case (Resume k)
    with Cons.prems(1) show ?thesis
      using received_resume [of c "connections room" "store room" "suspended_runs room ! k"]
      by (simp add: case_prod_unfold received_Nil)
  qed
  from Cons.prems have "Accept c \<notin> set before" by simp
  with step Cons.IH [of "snd (room_step room e)"]
  have "received c (fst (run_room (snd (room_step room e)) before)) = []
      \<and> c \<notin> set (connections (snd (run_room (snd (room_step room e)) before)))"
    by simp
  with step show ?case
    by (simp add: Let_def received_append case_prod_unfold)
qed

text \<open>
  A run that is resumed to its end with nothing in between does what \<open>onMessage\<close> does:
  the same deliveries, the same store.
\<close>

lemma run_room_idle:
  "run_room \<lparr>store = st, connections = conns, suspended_runs = []\<rparr> (replicate n (Resume k))
   = ([], \<lparr>store = st, connections = conns, suspended_runs = []\<rparr>)"
  by (induction n) (simp_all add: Let_def)

lemma uninterrupted_stream:
  "length events < n \<Longrightarrow>
   run_room \<lparr>store = st, connections = conns, suspended_runs = [Streaming ai buffer events]\<rparr>
     (replicate n (Resume 0))
   = (concat (map (deliver conns) (trace (for_await ai buffer st events))),
      \<lparr>store = chat (for_await ai buffer st events), connections = conns, suspended_runs = []\<rparr>)"
proof (induction events arbitrary: n buffer st)
  case Nil
  then obtain m where n: "n = Suc m"
    by (cases n) auto
  show ?case
    by (simp add: n run_room_idle Let_def)
next
  case (Cons e events)
  then obtain m where n: "n = Suc m" and m: "length events < m"
    by (cases n) auto
  show ?case
  proof (cases e)
    case (Data_Response response)
    then show ?thesis
      using Cons.IH [OF m, of st "buffer @ response"]
      by (simp add: n Let_def)
  next
    case Data_Done
    then show ?thesis
      using Cons.IH [OF m, of "saveMessage st (ai\<lparr>content := buffer\<rparr>)" buffer]
      by (simp add: n Let_def)
  next
    case Data_Invalid
    then show ?thesis
      by (simp add: n run_room_idle Let_def)
  qed
qed

lemma uninterrupted_handler:
  assumes "0 < n"
      and "\<And>parsed events.
             message = Json (Msg (Add parsed)) \<Longrightarrow>
             Ai (map (\<lambda>m. (content m, role m)) (messages (saveMessage st parsed))) = Inr events \<Longrightarrow>
             length events + 1 < n"
  shows "run_room \<lparr>store = st, connections = conns, suspended_runs = []\<rparr>
           (Inbound Ai nanoid connection message # replicate n (Resume 0))
         = (concat (map (deliver conns) (trace (onMessage Ai nanoid st connection message))),
            \<lparr>store = chat (onMessage Ai nanoid st connection message), connections = conns,
             suspended_runs = []\<rparr>)"
proof (cases "\<exists>parsed. message = Json (Msg (Add parsed))")
  case False
  then have "start Ai nanoid st connection message =
     (trace (onMessage Ai nanoid st connection message),
      chat (onMessage Ai nanoid st connection message), None)"
    by (intro start_other) auto
  then show ?thesis
    by (simp add: run_room_idle Let_def)
next
  case True
  then obtain parsed where add: "message = Json (Msg (Add parsed))"
    by blast
  from assms(1) obtain m where n: "n = Suc m"
    by (cases n) auto
  let ?prompt = "map (\<lambda>m. (content m, role m)) (messages (saveMessage st parsed))"
  show ?thesis
  proof (cases "Ai ?prompt")
    case (Inl e)
    then show ?thesis
      by (simp add: add n start_add onMessage_add run_room_idle Let_def)
  next
    case (Inr events)
    with assms(2) [OF add] have "length events < m"
      by (simp add: n)
    from uninterrupted_stream [OF this, of "saveMessage (saveMessage st parsed) (aiMessage nanoid)"
        conns "aiMessage nanoid" "[]"] Inr
    show ?thesis
      by (simp add: add n start_add onMessage_add Let_def)
  qed
qed

text \<open>
  Claim C8. \<open>onConnect\<close> sends the new connection one event, the snapshot of the whole
  log in its order, and nothing else, and leaves the log as it is: the acceptance of a
  connection delivers exactly that one payload, to that connection only. In every
  schedule of the room, a connection that was not connected receives nothing before its
  acceptance, and what it receives from then on starts with the snapshot of the log as it
  is at the acceptance; the broadcasts of the runs that go on afterwards follow it.
\<close>

theorem onConnect_snapshot:
  "onConnect st connection =
     \<lparr>trace = [Send connection (Json (Msg (AllMessages (messages st))))],
      chat = st, thrown = None\<rparr>
   \<and> room_step room (Accept connection) =
       ([(connection, Json (Msg (AllMessages (messages (store room)))))],
        \<lparr>store = store room, connections = connections room @ [connection],
         suspended_runs = suspended_runs room\<rparr>)
   \<and> (connection \<notin> set (connections room) \<and> Accept connection \<notin> set before \<longrightarrow>
        received connection (fst (run_room room before)) = []
        \<and> received connection (fst (run_room room (before @ Accept connection # later)))
            = Json (Msg (AllMessages (messages (store (snd (run_room room before))))))
              # received connection
                  (fst (run_room (snd (run_room room (before @ [Accept connection]))) later)))"
proof (intro conjI impI)
  show "onConnect st connection =
     \<lparr>trace = [Send connection (Json (Msg (AllMessages (messages st))))],
      chat = st, thrown = None\<rparr>"
    by (simp add: onConnect_def)
  show "room_step room (Accept connection) =
       ([(connection, Json (Msg (AllMessages (messages (store room)))))],
        \<lparr>store = store room, connections = connections room @ [connection],
         suspended_runs = suspended_runs room\<rparr>)"
    by (simp add: onConnect_def Let_def)
  assume h: "connection \<notin> set (connections room) \<and> Accept connection \<notin> set before"
  then show none: "received connection (fst (run_room room before)) = []"
    using nothing_before_accept [of connection room before] by simp
  let ?room1 = "snd (run_room room before)"
  have one: "run_room ?room1 [Accept connection]
      = ([(connection, Json (Msg (AllMessages (messages (store ?room1)))))],
         \<lparr>store = store ?room1, connections = connections ?room1 @ [connection],
          suspended_runs = suspended_runs ?room1\<rparr>)"
    by (simp add: onConnect_def Let_def)
  have "run_room room (before @ Accept connection # later)
      = run_room room ((before @ [Accept connection]) @ later)"
    by simp
  also have "fst \<dots> = fst (run_room room (before @ [Accept connection]))
      @ fst (run_room (snd (run_room room (before @ [Accept connection]))) later)"
    by (simp only: run_room_append fst_conv)
  finally have "fst (run_room room (before @ Accept connection # later))
      = fst (run_room room before) @ [(connection, Json (Msg (AllMessages (messages (store ?room1)))))]
        @ fst (run_room (snd (run_room room (before @ [Accept connection]))) later)"
    by (simp add: run_room_append [of room before "[Accept connection]"] one del: run_room.simps)
  then show "received connection (fst (run_room room (before @ Accept connection # later)))
            = Json (Msg (AllMessages (messages (store ?room1))))
              # received connection
                  (fst (run_room (snd (run_room room (before @ [Accept connection]))) later))"
    using none by (simp add: received_append) (simp add: received_def)
qed


lemma example_placeholder_log:
  "messages (saveMessage (saveMessage empty_chat msg_hi) (aiMessage ''ai1''))
   = [msg_hi, aiMessage ''ai1'']"
  unfolding example_saved by (simp add: saveMessage_messages aiMessage_def msg_hi_def)

theorem onConnect_snapshot_witness:
  "''c2'' \<notin> set (connections room_one)
   \<and> Accept ''c2''
       \<notin> set [Inbound Ai_example ''ai1'' ''c1'' (Json (Msg (Add msg_hi))), Resume 0, Resume 0]
   \<and> received ''c2''
        (fst (run_room room_one
               [Inbound Ai_example ''ai1'' ''c1'' (Json (Msg (Add msg_hi))), Resume 0, Resume 0]))
       = []
   \<and> received ''c2''
        (fst (run_room room_one
               ([Inbound Ai_example ''ai1'' ''c1'' (Json (Msg (Add msg_hi))), Resume 0, Resume 0]
                @ Accept ''c2'' # [Resume 0, Resume 0])))
       = [Json (Msg (AllMessages [msg_hi, aiMessage ''ai1''])),
          Json (Msg (Update ((aiMessage ''ai1'')\<lparr>content := ''Hi!...''\<rparr>))),
          Json (Msg (Update ((aiMessage ''ai1'')\<lparr>content := ''Hi!''\<rparr>)))]"
proof -
  let ?before = "[Inbound Ai_example ''ai1'' ''c1'' (Json (Msg (Add msg_hi))), Resume 0, Resume 0]"
  let ?later = "[Resume 0, Resume 0]"
  let ?st2 = "saveMessage (saveMessage empty_chat msg_hi) (aiMessage ''ai1'')"
  have new: "''c2'' \<notin> set (connections room_one)"
    by (simp add: room_one_def)
  have na: "Accept ''c2'' \<notin> set ?before"
    by simp
  have before: "snd (run_room room_one ?before)
      = \<lparr>store = ?st2, connections = [''c1''],
         suspended_runs = [Streaming (aiMessage ''ai1'') ''Hi'' [Data_Response ''!'', Data_Done]]\<rparr>"
    by (simp add: room_one_def start_add Ai_example_def Let_def)
  have accepted: "snd (run_room room_one (?before @ [Accept ''c2'']))
      = \<lparr>store = ?st2, connections = [''c1'', ''c2''],
         suspended_runs = [Streaming (aiMessage ''ai1'') ''Hi'' [Data_Response ''!'', Data_Done]]\<rparr>"
  proof -
    have "snd (run_room room_one (?before @ [Accept ''c2'']))
        = snd (run_room (snd (run_room room_one ?before)) [Accept ''c2''])"
      by (simp only: run_room_append snd_conv)
    then show ?thesis
      unfolding before by (simp add: onConnect_def Let_def)
  qed
  have after: "received ''c2''
      (fst (run_room (snd (run_room room_one (?before @ [Accept ''c2'']))) ?later))
      = [Json (Msg (Update ((aiMessage ''ai1'')\<lparr>content := ''Hi!...''\<rparr>))),
         Json (Msg (Update ((aiMessage ''ai1'')\<lparr>content := ''Hi!''\<rparr>)))]"
    unfolding accepted by (simp add: Let_def broadcastMessage_def received_def)
  have log: "messages (store (snd (run_room room_one ?before))) = [msg_hi, aiMessage ''ai1'']"
    unfolding before by (simp add: example_placeholder_log)
  from onConnect_snapshot [of empty_chat "''c2''" room_one ?before ?later] new na
  have "received ''c2'' (fst (run_room room_one ?before)) = []"
    and "received ''c2'' (fst (run_room room_one (?before @ Accept ''c2'' # ?later)))
       = Json (Msg (AllMessages (messages (store (snd (run_room room_one ?before))))))
         # received ''c2''
             (fst (run_room (snd (run_room room_one (?before @ [Accept ''c2'']))) ?later))"
    by blast+
  with new na show ?thesis
    unfolding log after by blast
qed

text \<open>
  Claim C9. For an \<open>add\<close> event the backend is called once, with the contents and roles
  of the log as it is after the user's message has been saved. When the generated id is
  not in that log, the placeholder is not among its entries and has not been saved
  before the call; saving it afterwards appends it to that log.
\<close>

theorem prompt_taken_before_placeholder:
  assumes "nanoid \<notin> set (map id' (messages (saveMessage st parsed)))"
  shows "prompts (trace (onMessage Ai nanoid st connection (Json (Msg (Add parsed)))))
           = [map (\<lambda>m. (content m, role m)) (messages (saveMessage st parsed))]
       \<and> take 4 (trace (onMessage Ai nanoid st connection (Json (Msg (Add parsed)))))
           = [Broadcast (Json (Msg (Add parsed))) [], Save parsed,
              Broadcast (Json (Msg (Add (aiMessage nanoid)))) [],
              Ai_run (map (\<lambda>m. (content m, role m)) (messages (saveMessage st parsed)))]
       \<and> Save (aiMessage nanoid)
           \<notin> set (take 4 (trace (onMessage Ai nanoid st connection (Json (Msg (Add parsed))))))
       \<and> aiMessage nanoid \<notin> set (messages (saveMessage st parsed))
       \<and> messages (saveMessage (saveMessage st parsed) (aiMessage nanoid))
           = messages (saveMessage st parsed) @ [aiMessage nanoid]"
proof -
  let ?prompt = "map (\<lambda>m. (content m, role m)) (messages (saveMessage st parsed))"
  let ?r = "onMessage Ai nanoid st connection (Json (Msg (Add parsed)))"
  have i: "id' (aiMessage nanoid) = nanoid"
    by (simp add: aiMessage_def)
  have p: "prompts (trace ?r) = [?prompt]"
    by (cases "Ai ?prompt")
      (simp_all add: onMessage_add Let_def broadcastMessage_def prompts_append prompts_for_await)
  have t: "take 4 (trace ?r)
           = [Broadcast (Json (Msg (Add parsed))) [], Save parsed,
              Broadcast (Json (Msg (Add (aiMessage nanoid)))) [], Ai_run ?prompt]"
    by (cases "Ai ?prompt") (simp_all add: onMessage_add Let_def broadcastMessage_def)
  have "id' parsed \<noteq> nanoid"
    using assms saved_id_in_log [of parsed st] by auto
  then have ne: "parsed \<noteq> aiMessage nanoid"
    using i by auto
  have absent: "aiMessage nanoid \<notin> set (messages (saveMessage st parsed))"
    using assms i by force
  have app: "messages (saveMessage (saveMessage st parsed) (aiMessage nanoid))
           = messages (saveMessage st parsed) @ [aiMessage nanoid]"
    using assms i by (simp add: saveMessage_messages)
  from p t ne absent app show ?thesis
    by simp
qed

theorem prompt_taken_before_placeholder_witness:
  "''ai1'' \<notin> set (map id' (messages (saveMessage empty_chat msg_hi)))
   \<and> prompts (trace (onMessage Ai_example ''ai1'' empty_chat ''c1'' (Json (Msg (Add msg_hi)))))
       = [[(''hi'', ''user'')]]
   \<and> messages (saveMessage (saveMessage empty_chat msg_hi) (aiMessage ''ai1''))
       = [msg_hi, aiMessage ''ai1'']"
proof -
  have fresh: "''ai1'' \<notin> set (map id' (messages (saveMessage empty_chat msg_hi)))"
    unfolding example_saved by (simp add: msg_hi_def)
  from prompt_taken_before_placeholder [OF fresh, of Ai_example "''c1''"] fresh
  show ?thesis
    unfolding example_prompt by (simp add: example_saved)
qed

theorem end_of_stream_final_update_witness:
  "Data_Invalid \<notin> set [Data_Response ''Hi'', Data_Response ''!'']
   \<and> Ai_example (map (\<lambda>m. (content m, role m)) (messages (saveMessage empty_chat msg_hi)))
       = Inr ([Data_Response ''Hi'', Data_Response ''!''] @ [Data_Done])
   \<and> trace (onMessage Ai_example ''ai1'' empty_chat ''c1'' (Json (Msg (Add msg_hi)))) =
       [Broadcast (Json (Msg (Add msg_hi))) [], Save msg_hi,
        Broadcast (Json (Msg (Add (aiMessage ''ai1'')))) [],
        Ai_run [(''hi'', ''user'')],
        Save (aiMessage ''ai1''),
        Broadcast (Json (Msg (Update \<lparr>id' = ''ai1'', content = ''Hi...'', user = ''AI'',
                                      role = ''assistant''\<rparr>))) [],
        Broadcast (Json (Msg (Update \<lparr>id' = ''ai1'', content = ''Hi!...'', user = ''AI'',
                                      role = ''assistant''\<rparr>))) [],
        Save \<lparr>id' = ''ai1'', content = ''Hi!'', user = ''AI'', role = ''assistant''\<rparr>,
        Broadcast (Json (Msg (Update \<lparr>id' = ''ai1'', content = ''Hi!'', user = ''AI'',
                                      role = ''assistant''\<rparr>))) []]
   \<and> stored_content ''ai1''
        (chat (onMessage Ai_example ''ai1'' empty_chat ''c1'' (Json (Msg (Add msg_hi)))))
       = Some ''Hi!''
   \<and> durable_content ''ai1''
        (chat (onMessage Ai_example ''ai1'' empty_chat ''c1'' (Json (Msg (Add msg_hi)))))
       = Some ''Hi!''
   \<and> Data_Invalid \<notin> set [Data_Done, Data_Response ''Hi'']
   \<and> trace (for_await (aiMessage ''ai1'') [] empty_chat
              ([Data_Done, Data_Response ''Hi''] @ [Data_Done])) =
       [Save \<lparr>id' = ''ai1'', content = [], user = ''AI'', role = ''assistant''\<rparr>,
        Broadcast (Json (Msg (Update \<lparr>id' = ''ai1'', content = [], user = ''AI'',
                                      role = ''assistant''\<rparr>))) [],
        Broadcast (Json (Msg (Update \<lparr>id' = ''ai1'', content = ''Hi...'', user = ''AI'',
                                      role = ''assistant''\<rparr>))) [],
        Save \<lparr>id' = ''ai1'', content = ''Hi'', user = ''AI'', role = ''assistant''\<rparr>,
        Broadcast (Json (Msg (Update \<lparr>id' = ''ai1'', content = ''Hi'', user = ''AI'',
                                      role = ''assistant''\<rparr>))) []]
   \<and> stored_content ''ai1''
        (chat (for_await (aiMessage ''ai1'') [] empty_chat
                ([Data_Done, Data_Response ''Hi''] @ [Data_Done])))
       = Some ''Hi''"
proof -
  let ?events = "[Data_Response ''Hi'', Data_Response ''!'']"
  let ?two = "[Data_Done, Data_Response ''Hi'']"
  have ok: "Data_Invalid \<notin> set ?events" and ok2: "Data_Invalid \<notin> set ?two"
    by simp_all
  have stream: "Ai_example (map (\<lambda>m. (content m, role m)) (messages (saveMessage empty_chat msg_hi)))
       = Inr (?events @ [Data_Done])"
    by (simp add: Ai_example_def)
  note t = end_of_stream_final_update
    [of ?events "aiMessage ''ai1''" "[]" empty_chat Ai_example msg_hi "''ai1''" "''c1''"]
  from t ok stream
  have tr: "trace (onMessage Ai_example ''ai1'' empty_chat ''c1'' (Json (Msg (Add msg_hi)))) =
        [Broadcast (Json (Msg (Add msg_hi))) [], Save msg_hi,
         Broadcast (Json (Msg (Add (aiMessage ''ai1'')))) [],
         Ai_run (map (\<lambda>m. (content m, role m)) (messages (saveMessage empty_chat msg_hi))),
         Save (aiMessage ''ai1'')]
        @ trace (for_await (aiMessage ''ai1'') []
                  (saveMessage (saveMessage empty_chat msg_hi) (aiMessage ''ai1'')) ?events)
        @ [Save \<lparr>id' = ''ai1'', content = fragments ?events, user = ''AI'', role = ''assistant''\<rparr>,
           Broadcast (Json (Msg (Update \<lparr>id' = ''ai1'', content = fragments ?events, user = ''AI'',
                                         role = ''assistant''\<rparr>))) []]"
    and sc: "stored_content ''ai1''
        (chat (onMessage Ai_example ''ai1'' empty_chat ''c1'' (Json (Msg (Add msg_hi)))))
       = Some (fragments ?events)"
    and dc: "durable_content ''ai1''
        (chat (onMessage Ai_example ''ai1'' empty_chat ''c1'' (Json (Msg (Add msg_hi)))))
       = Some (fragments ?events)"
    by blast+
  note t2 = end_of_stream_final_update
    [of ?two "aiMessage ''ai1''" "[]" empty_chat Ai_example msg_hi "''ai1''" "''c1''"]
  have i: "id' (aiMessage ''ai1'') = ''ai1''"
    by (simp add: aiMessage_def)
  from t2 ok2
  have l: "for_await (aiMessage ''ai1'') [] empty_chat (?two @ [Data_Done]) =
        \<lparr>trace = trace (for_await (aiMessage ''ai1'') [] empty_chat ?two)
                 @ [Save ((aiMessage ''ai1'')\<lparr>content := [] @ fragments ?two\<rparr>),
                    Broadcast (Json (Msg (Update ((aiMessage ''ai1'')\<lparr>content := [] @ fragments ?two\<rparr>)))) []],
         chat = saveMessage (chat (for_await (aiMessage ''ai1'') [] empty_chat ?two))
                  ((aiMessage ''ai1'')\<lparr>content := [] @ fragments ?two\<rparr>),
         thrown = None\<rparr>"
    and ls: "stored_content (id' (aiMessage ''ai1''))
        (chat (for_await (aiMessage ''ai1'') [] empty_chat (?two @ [Data_Done])))
       = Some ([] @ fragments ?two)"
    by blast+
  have f: "fragments ?events = ''Hi!''" "fragments ?two = ''Hi''"
    by simp_all
  have a: "trace (onMessage Ai_example ''ai1'' empty_chat ''c1'' (Json (Msg (Add msg_hi)))) =
       [Broadcast (Json (Msg (Add msg_hi))) [], Save msg_hi,
        Broadcast (Json (Msg (Add (aiMessage ''ai1'')))) [],
        Ai_run [(''hi'', ''user'')],
        Save (aiMessage ''ai1''),
        Broadcast (Json (Msg (Update \<lparr>id' = ''ai1'', content = ''Hi...'', user = ''AI'',
                                      role = ''assistant''\<rparr>))) [],
        Broadcast (Json (Msg (Update \<lparr>id' = ''ai1'', content = ''Hi!...'', user = ''AI'',
                                      role = ''assistant''\<rparr>))) [],
        Save \<lparr>id' = ''ai1'', content = ''Hi!'', user = ''AI'', role = ''assistant''\<rparr>,
        Broadcast (Json (Msg (Update \<lparr>id' = ''ai1'', content = ''Hi!'', user = ''AI'',
                                      role = ''assistant''\<rparr>))) []]"
    unfolding tr example_prompt f
    by (simp add: Let_def broadcastMessage_def aiMessage_def)
  have b: "trace (for_await (aiMessage ''ai1'') [] empty_chat (?two @ [Data_Done])) =
       [Save \<lparr>id' = ''ai1'', content = [], user = ''AI'', role = ''assistant''\<rparr>,
        Broadcast (Json (Msg (Update \<lparr>id' = ''ai1'', content = [], user = ''AI'',
                                      role = ''assistant''\<rparr>))) [],
        Broadcast (Json (Msg (Update \<lparr>id' = ''ai1'', content = ''Hi...'', user = ''AI'',
                                      role = ''assistant''\<rparr>))) [],
        Save \<lparr>id' = ''ai1'', content = ''Hi'', user = ''AI'', role = ''assistant''\<rparr>,
        Broadcast (Json (Msg (Update \<lparr>id' = ''ai1'', content = ''Hi'', user = ''AI'',
                                      role = ''assistant''\<rparr>))) []]"
    unfolding l f by (simp add: Let_def broadcastMessage_def aiMessage_def)
  from ls have c: "stored_content ''ai1''
        (chat (for_await (aiMessage ''ai1'') [] empty_chat (?two @ [Data_Done])))
       = Some ''Hi''"
    unfolding i f by simp
  from sc dc have d: "stored_content ''ai1''
        (chat (onMessage Ai_example ''ai1'' empty_chat ''c1'' (Json (Msg (Add msg_hi)))))
       = Some ''Hi!''" "durable_content ''ai1''
        (chat (onMessage Ai_example ''ai1'' empty_chat ''c1'' (Json (Msg (Add msg_hi)))))
       = Some ''Hi!''"
    unfolding f by simp_all
  show ?thesis
    by (intro conjI) (rule ok ok2 stream a b c d)+
qed

section \<open>A sequence of add events\<close>

lemma keep_replace_other:
  "id' x \<notin> U \<Longrightarrow>
   filter (\<lambda>y. id' y \<in> U) (map (\<lambda>m. if id' m = id' x then x else m) xs)
   = filter (\<lambda>y. id' y \<in> U) xs"
  by (induction xs) auto

lemma keep_save_other:
  "id' x \<notin> U \<Longrightarrow>
   filter (\<lambda>y. id' y \<in> U) (messages (saveMessage st x)) = filter (\<lambda>y. id' y \<in> U) (messages st)"
  by (simp add: saveMessage_messages keep_replace_other del: set_map)

lemma keep_save_new:
  "id' x \<in> U \<Longrightarrow> id' x \<notin> set (map id' (messages st)) \<Longrightarrow>
   filter (\<lambda>y. id' y \<in> U) (messages (saveMessage st x))
   = filter (\<lambda>y. id' y \<in> U) (messages st) @ [x]"
  by (simp add: saveMessage_messages del: set_map)

lemma keep_for_await:
  "id' ai \<notin> U \<Longrightarrow>
   filter (\<lambda>y. id' y \<in> U) (messages (chat (for_await ai buffer st events)))
   = filter (\<lambda>y. id' y \<in> U) (messages st)"
proof (induction ai buffer st events rule: for_await.induct)
  case (3 ai buffer st events)
  then show ?case
    using keep_save_other [of "ai\<lparr>content := buffer\<rparr>" U st] by (simp add: Let_def)
qed (simp_all add: Let_def)

lemma distinct_for_await:
  "distinct (map id' (messages st)) \<Longrightarrow>
   distinct (map id' (messages (chat (for_await ai buffer st events))))"
proof (induction ai buffer st events rule: for_await.induct)
  case (3 ai buffer st events)
  then show ?case
    using saveMessage_distinct [of st "ai\<lparr>content := buffer\<rparr>"] by (simp add: Let_def)
qed (simp_all add: Let_def)

lemma keep_onMessage_add:
  assumes "nanoid \<notin> U"
  shows "filter (\<lambda>y. id' y \<in> U)
           (messages (chat (onMessage Ai nanoid st connection (Json (Msg (Add m))))))
         = filter (\<lambda>y. id' y \<in> U) (messages (saveMessage st m))"
proof -
  have i: "id' (aiMessage nanoid) \<notin> U"
    using assms by (simp add: aiMessage_def)
  show ?thesis
  proof (cases "Ai (map (\<lambda>m. (content m, role m)) (messages (saveMessage st m)))")
    case (Inl e)
    then show ?thesis by (simp add: onMessage_add Let_def)
  next
    case (Inr events)
    then show ?thesis
      using keep_for_await [OF i] keep_save_other [OF i]
      by (simp add: onMessage_add Let_def)
  qed
qed

lemma distinct_onMessage_add:
  assumes "distinct (map id' (messages st))"
  shows "distinct (map id' (messages (chat (onMessage Ai nanoid st connection (Json (Msg (Add m)))))))"
proof (cases "Ai (map (\<lambda>m. (content m, role m)) (messages (saveMessage st m)))")
  case (Inl e)
  then show ?thesis
    using assms by (simp add: onMessage_add Let_def saveMessage_distinct)
next
  case (Inr events)
  then show ?thesis
    using assms by (simp add: onMessage_add Let_def saveMessage_distinct distinct_for_await)
qed

lemma distinct_process_adds:
  "distinct (map id' (messages st)) \<Longrightarrow> distinct (map id' (messages (process_adds st es)))"
  by (induction st es rule: process_adds.induct) (simp_all add: distinct_onMessage_add)

lemma keep_process_adds:
  assumes "distinct (map id' (filter (\<lambda>y. id' y \<in> U) (messages st)) @ map id' (map event es))"
      and "set (map id' (map event es)) \<subseteq> U"
      and "set (map generated es) \<inter> U = {}"
  shows "filter (\<lambda>y. id' y \<in> U) (messages (process_adds st es))
         = filter (\<lambda>y. id' y \<in> U) (messages st) @ map event es"
  using assms
proof (induction st es rule: process_adds.induct)
  case (1 st)
  then show ?case by simp
next
  case (2 st e es)
  let ?st' = "chat (onMessage (backend e) (generated e) st (sender e) (Json (Msg (Add (event e)))))"
  from "2.prems" have mU: "id' (event e) \<in> U" and nU: "generated e \<notin> U"
    by auto
  have "id' (event e) \<notin> set (map id' (messages st))"
  proof
    assume "id' (event e) \<in> set (map id' (messages st))"
    then obtain y where y: "y \<in> set (messages st)" "id' y = id' (event e)"
      by auto
    with mU have "y \<in> set (filter (\<lambda>y. id' y \<in> U) (messages st))"
      by simp
    then have "id' y \<in> set (map id' (filter (\<lambda>y. id' y \<in> U) (messages st)))"
      by (simp del: set_filter)
    with y(2) have "id' (event e) \<in> set (map id' (filter (\<lambda>y. id' y \<in> U) (messages st)))"
      by simp
    with "2.prems"(1) show False
      by auto
  qed
  with mU have k: "filter (\<lambda>y. id' y \<in> U) (messages ?st')
      = filter (\<lambda>y. id' y \<in> U) (messages st) @ [event e]"
    by (simp add: keep_onMessage_add [OF nU] keep_save_new)
  have "filter (\<lambda>y. id' y \<in> U) (messages (process_adds ?st' es))
         = filter (\<lambda>y. id' y \<in> U) (messages ?st') @ map event es"
  proof (rule "2.IH")
    show "distinct (map id' (filter (\<lambda>y. id' y \<in> U) (messages ?st')) @ map id' (map event es))"
      using "2.prems"(1) by (simp add: k)
    show "set (map id' (map event es)) \<subseteq> U"
      using "2.prems"(2) by simp
    show "set (map generated es) \<inter> U = {}"
      using "2.prems"(3) by simp
  qed
  then show ?case
    by (simp add: k)
qed

text \<open>
  Claim C5. Starting from the empty room, saving a sequence of messages with pairwise
  distinct ids leaves a log that is exactly that sequence: one entry for each id, in
  the order of the first save; the table holds the same rows in the same order. When
  the sequence is handled by \<open>onMessage\<close>, event after event, with generated ids that
  are not ids of the sequence, the log holds no id twice, and its entries with the ids
  of the sequence are exactly the messages of the sequence, in their order (the replies
  of the assistant stand between them).
\<close>

theorem adds_distinct_ids_log:
  assumes "distinct (map id' ms)"
  shows "messages (foldl saveMessage empty_chat ms) = ms
       \<and> messages_table (foldl saveMessage empty_chat ms) = ms
       \<and> (map event es = ms \<and> set (map generated es) \<inter> set (map id' ms) = {} \<longrightarrow>
            filter (\<lambda>y. id' y \<in> set (map id' ms)) (messages (process_adds empty_chat es)) = ms
            \<and> distinct (map id' (messages (process_adds empty_chat es))))"
proof (intro conjI impI)
  show "messages (foldl saveMessage empty_chat ms) = ms"
    using assms foldl_saveMessage_distinct [of empty_chat ms] by (simp add: empty_chat_def)
  show "messages_table (foldl saveMessage empty_chat ms) = ms"
    using assms foldl_saveMessage_table_distinct [of empty_chat ms] by (simp add: empty_chat_def)
next
  assume h: "map event es = ms \<and> set (map generated es) \<inter> set (map id' ms) = {}"
  have e: "messages empty_chat = []"
    by (simp add: empty_chat_def)
  have "filter (\<lambda>y. id' y \<in> set (map id' ms)) (messages (process_adds empty_chat es))
        = filter (\<lambda>y. id' y \<in> set (map id' ms)) (messages empty_chat) @ map event es"
  proof (rule keep_process_adds)
    show "distinct (map id' (filter (\<lambda>y. id' y \<in> set (map id' ms)) (messages empty_chat))
            @ map id' (map event es))"
      using assms h by (simp add: e)
    show "set (map id' (map event es)) \<subseteq> set (map id' ms)"
      using h by simp
    show "set (map generated es) \<inter> set (map id' ms) = {}"
      using h by simp
  qed
  with h show "filter (\<lambda>y. id' y \<in> set (map id' ms)) (messages (process_adds empty_chat es)) = ms"
    by (simp add: e)
  show "distinct (map id' (messages (process_adds empty_chat es)))"
    by (rule distinct_process_adds) (simp add: e)
qed

lemma two_adds_log:
  "messages (process_adds empty_chat two_adds)
   = [msg_hi, \<lparr>id' = ''ai1'', content = ''Hi!'', user = ''AI'', role = ''assistant''\<rparr>, msg_yo]"
proof -
  have first: "chat (onMessage Ai_example ''ai1'' empty_chat ''c1'' (Json (Msg (Add msg_hi))))
      = saveMessage (saveMessage (saveMessage empty_chat msg_hi) (aiMessage ''ai1''))
          ((aiMessage ''ai1'')\<lparr>content := ''Hi!''\<rparr>)"
    using onMessage_add_stream
      [of Ai_example empty_chat msg_hi "[''Hi'', ''!'']" "''ai1''" "''c1''", OF example_stream]
    by simp
  have log1: "messages (saveMessage (saveMessage (saveMessage empty_chat msg_hi) (aiMessage ''ai1''))
          ((aiMessage ''ai1'')\<lparr>content := ''Hi!''\<rparr>))
      = [msg_hi, \<lparr>id' = ''ai1'', content = ''Hi!'', user = ''AI'', role = ''assistant''\<rparr>]"
    unfolding example_saved
    by (simp add: saveMessage_messages aiMessage_def msg_hi_def)
  have "messages (chat (onMessage Ai_down ''ai2'' st ''c2'' (Json (Msg (Add msg_yo)))))
      = messages (saveMessage st msg_yo)" for st
    by (simp add: onMessage_add Ai_down_def Let_def)
  then have "messages (process_adds empty_chat two_adds)
      = messages (saveMessage (saveMessage (saveMessage (saveMessage empty_chat msg_hi)
          (aiMessage ''ai1'')) ((aiMessage ''ai1'')\<lparr>content := ''Hi!''\<rparr>)) msg_yo)"
    by (simp add: two_adds_def first)
  also have "\<dots> = [msg_hi, \<lparr>id' = ''ai1'', content = ''Hi!'', user = ''AI'', role = ''assistant''\<rparr>]
      @ [msg_yo]"
    by (subst saveMessage_messages, subst (1 2) log1) (simp add: msg_hi_def msg_yo_def)
  finally show ?thesis
    by simp
qed

theorem adds_distinct_ids_log_witness:
  "distinct (map id' [msg_hi, msg_yo])
   \<and> map event two_adds = [msg_hi, msg_yo]
   \<and> set (map generated two_adds) \<inter> set (map id' [msg_hi, msg_yo]) = {}
   \<and> messages (foldl saveMessage empty_chat [msg_hi, msg_yo]) = [msg_hi, msg_yo]
   \<and> messages_table (foldl saveMessage empty_chat [msg_hi, msg_yo]) = [msg_hi, msg_yo]
   \<and> filter (\<lambda>y. id' y \<in> set (map id' [msg_hi, msg_yo])) (messages (process_adds empty_chat two_adds))
       = [msg_hi, msg_yo]
   \<and> messages (process_adds empty_chat two_adds)
       = [msg_hi, \<lparr>id' = ''ai1'', content = ''Hi!'', user = ''AI'', role = ''assistant''\<rparr>, msg_yo]"
proof -
  have d: "distinct (map id' [msg_hi, msg_yo])"
    by (simp add: msg_hi_def msg_yo_def)
  have ev: "map event two_adds = [msg_hi, msg_yo]"
    by (simp add: two_adds_def)
  have g: "set (map generated two_adds) \<inter> set (map id' [msg_hi, msg_yo]) = {}"
    by (simp add: two_adds_def msg_hi_def msg_yo_def)
  note t = adds_distinct_ids_log [OF d, of two_adds]
  from t have a: "messages (foldl saveMessage empty_chat [msg_hi, msg_yo]) = [msg_hi, msg_yo]"
    by (rule conjunct1)
  from t have b: "messages_table (foldl saveMessage empty_chat [msg_hi, msg_yo]) = [msg_hi, msg_yo]"
    by (rule conjunct2 [THEN conjunct1])
  from t ev g
  have c: "filter (\<lambda>y. id' y \<in> set (map id' [msg_hi, msg_yo]))
             (messages (process_adds empty_chat two_adds)) = [msg_hi, msg_yo]"
    by blast
  show ?thesis
    by (intro conjI) (rule d ev g a b c two_adds_log)+
qed

section \<open>Properties of the revision without durable storage\<close>

text \<open>
  The handlers of the in-memory revision broadcast what those of the durable revision
  broadcast. Its writes differ: an \<open>add\<close> event is pushed without a look at the ids, so
  an event handled twice is in the log twice, and an \<open>update\<close> for an id that is not in
  the log leaves the log as it is.
\<close>

lemma for_await_inmem_responses:
  "for_await_inmem ai buffer log (map Data_Response rs @ rest) =
     (let r = for_await_inmem ai (buffer @ concat rs) log rest
      in r\<lparr>trace := map (\<lambda>c. broadcastMessage (Update (ai\<lparr>content := c\<rparr>)) [])
                         (partial_contents buffer rs) @ trace r\<rparr>)"
  by (induction rs arbitrary: buffer) (simp_all add: Let_def)

lemma onMessage_inmem_add_stream:
  assumes "Ai (map (\<lambda>m. (content m, role m)) (log @ [parsed]))
             = Inr (map Data_Response rs @ [Data_Done])"
  shows "onMessage_inmem Ai nanoid log connection (Json (Msg (Add parsed))) =
     \<lparr>trace = [Broadcast (Json (Msg (Add parsed))) [],
               broadcastMessage (Add (aiMessage nanoid)) [],
               Ai_run (map (\<lambda>m. (content m, role m)) (log @ [parsed]))]
              @ map (\<lambda>c. broadcastMessage (Update ((aiMessage nanoid)\<lparr>content := c\<rparr>)) [])
                  (partial_contents [] rs)
              @ [broadcastMessage (Update ((aiMessage nanoid)\<lparr>content := concat rs\<rparr>)) []],
      chat = map (\<lambda>m. if id' m = nanoid then m\<lparr>content := concat rs\<rparr> else m)
               (log @ [parsed, aiMessage nanoid]),
      thrown = None\<rparr>"
  using assms
  by (simp add: onMessage_inmem_def for_await_inmem_responses Let_def aiMessage_def)

lemma onMessage_inmem_add_rejected:
  assumes "Ai (map (\<lambda>m. (content m, role m)) (log @ [parsed])) = Inl e"
  shows "onMessage_inmem Ai nanoid log connection (Json (Msg (Add parsed))) =
     \<lparr>trace = [Broadcast (Json (Msg (Add parsed))) [],
               broadcastMessage (Add (aiMessage nanoid)) [],
               Ai_run (map (\<lambda>m. (content m, role m)) (log @ [parsed]))],
      chat = log @ [parsed], thrown = Some e\<rparr>"
  using assms by (simp add: onMessage_inmem_def Let_def)

lemma onMessage_inmem_add_twice:
  "chat (onMessage_inmem Ai_down n2 (chat (onMessage_inmem Ai_down n1 log c1 (Json (Msg (Add m)))))
          c2 (Json (Msg (Add m))))
   = log @ [m, m]"
  by (simp add: onMessage_inmem_def Let_def Ai_down_def)

lemma findIndex_absent:
  "i \<notin> set (map id' xs) \<Longrightarrow> findIndex (\<lambda>m. id' m = i) xs = - 1"
  by (induction xs) (auto simp: Let_def)

lemma findIndex_present:
  "i \<in> set (map id' xs) \<Longrightarrow>
   0 \<le> findIndex (\<lambda>m. id' m = i) xs \<and> nat (findIndex (\<lambda>m. id' m = i) xs) < length xs
   \<and> id' (xs ! nat (findIndex (\<lambda>m. id' m = i) xs)) = i"
proof (induction xs)
  case Nil
  then show ?case by simp
next
  case (Cons x xs)
  show ?case
  proof (cases "id' x = i")
    case True
    then show ?thesis by simp
  next
    case False
    with Cons.prems have "i \<in> set (map id' xs)" by auto
    from Cons.IH [OF this] False show ?thesis
      by (auto simp: Let_def nat_add_distrib)
  qed
qed

lemma onMessage_inmem_update_absent:
  "id' parsed \<notin> set (map id' log) \<Longrightarrow>
   chat (onMessage_inmem Ai nanoid log c (Json (Msg (Update parsed)))) = log"
  by (simp add: onMessage_inmem_def Let_def findIndex_absent assign_index_def del: set_map)

lemma onMessage_inmem_update_present:
  assumes "id' parsed \<in> set (map id' log)"
  shows "map id' (chat (onMessage_inmem Ai nanoid log c (Json (Msg (Update parsed))))) = map id' log"
    and "chat (onMessage_inmem Ai nanoid log c (Json (Msg (Update parsed))))
         = log[nat (findIndex (\<lambda>m. id' m = id' parsed) log) := parsed]"
proof -
  note f = findIndex_present [OF assms]
  show u: "chat (onMessage_inmem Ai nanoid log c (Json (Msg (Update parsed))))
         = log[nat (findIndex (\<lambda>m. id' m = id' parsed) log) := parsed]"
    using f by (simp add: onMessage_inmem_def Let_def assign_index_def)
  show "map id' (chat (onMessage_inmem Ai nanoid log c (Json (Msg (Update parsed))))) = map id' log"
    unfolding u using f by (simp add: map_update list_update_same_conv)
qed

text \<open>
  Claim C4. In the in-memory revision the write of the \<open>add\<close> branch is a \<open>push\<close>: the
  same \<open>add\<close> event handled twice leaves its message in the log twice, where handling it
  once leaves it once, whether the backend rejects the call or answers it. The upsert of
  the durable revision keeps one entry.
\<close>

theorem replayed_add_inmem_duplicates:
  "chat (onMessage_inmem Ai_down ''ai1'' [] ''c1'' (Json (Msg (Add msg_hi)))) = [msg_hi]
   \<and> chat (onMessage_inmem Ai_down ''ai2''
            (chat (onMessage_inmem Ai_down ''ai1'' [] ''c1'' (Json (Msg (Add msg_hi)))))
            ''c1'' (Json (Msg (Add msg_hi))))
       = [msg_hi, msg_hi]
   \<and> filter (\<lambda>m. id' m = ''m1'')
        (chat (onMessage_inmem Ai_example ''ai2''
                (chat (onMessage_inmem Ai_example ''ai1'' [] ''c1'' (Json (Msg (Add msg_hi)))))
                ''c1'' (Json (Msg (Add msg_hi)))))
       = [msg_hi, msg_hi]
   \<and> messages (saveMessage (saveMessage empty_chat msg_hi) msg_hi) = [msg_hi]"
proof -
  have a: "chat (onMessage_inmem Ai_down n log c (Json (Msg (Add m)))) = log @ [m]" for n log c m
    by (simp add: onMessage_inmem_def Let_def Ai_down_def)
  have b: "chat (onMessage_inmem Ai_example n log c (Json (Msg (Add m))))
      = map (\<lambda>x. if id' x = n then x\<lparr>content := ''Hi!''\<rparr> else x) (log @ [m, aiMessage n])"
    for n log c m
    using onMessage_inmem_add_stream [of Ai_example log m "[''Hi'', ''!'']" n c, OF example_stream]
    by simp
  have c: "filter (\<lambda>m. id' m = ''m1'')
        (chat (onMessage_inmem Ai_example ''ai2''
                (chat (onMessage_inmem Ai_example ''ai1'' [] ''c1'' (Json (Msg (Add msg_hi)))))
                ''c1'' (Json (Msg (Add msg_hi)))))
       = [msg_hi, msg_hi]"
    unfolding b by (simp add: aiMessage_def msg_hi_def)
  have d: "messages (saveMessage (saveMessage empty_chat msg_hi) msg_hi) = [msg_hi]"
    unfolding example_saved by (simp add: saveMessage_messages)
  show ?thesis
    unfolding a using c d by simp
qed

end
